theory Spec2Isabelle
  imports Main "HOL-Library.Word"
begin

section \<open>Bytes, strings, errors and the external libraries\<close>

text \<open>
  A \<open>Uint8Array\<close> is a list of 8-bit words. A JavaScript string is modelled by the
  \<open>char\<close> list of its UTF-8 encoding, so \<open>TextEncoder.encode\<close> and the UTF-8 reader
  of protobufjs, which keeps a byte order mark, are the byte-for-byte conversions
  below; the model covers well-formed strings. \<open>undefined\<close> is \<open>None\<close>. A \<open>throw\<close>
  is the \<open>Inl\<close> of a sum.
\<close>

type_synonym byte = "8 word"
type_synonym bytes = "byte list"

datatype error =
    InvalidHexLength
  | InvalidSignatureLength
  | InvalidRecoveryId
  | InvalidPublicKeyLength
  | TokenTooShort
  | UnsupportedTokenVersion
  | CiphertextTooShort
  | InvalidPackedConversationId
  | DecompressedSizeExceedsMaximum
  | ProtobufDecodeError
  | PrivateKeyRequired
  | SubstrateError
  | LibraryError

definition utf8_encode :: "string \<Rightarrow> bytes" where
  "utf8_encode s = map (\<lambda>c. of_nat (of_char c)) s"

definition utf8_decode :: "bytes \<Rightarrow> string" where
  "utf8_decode bs = map (\<lambda>b. char_of (unat b)) bs"

text \<open>
  \<open>new TextDecoder().decode(bytes)\<close> is the UTF-8 decoder of the Encoding Standard,
  neither fatal nor ignoring the byte order mark: it drops a leading U+FEFF and puts
  U+FFFD in the place of every ill-formed part. \<open>utf8_lead\<close> gives, for a lead byte,
  the number of continuation bytes and the range of the first of them;
  \<open>utf8_continuation\<close> counts the continuation bytes that are accepted. A byte that
  is not accepted is read again as the start of the next character. Code points are
  kept as their UTF-8 bytes, so a well-formed part is copied and U+FFFD is the three
  bytes \<open>EF BF BD\<close>.
\<close>

definition REPLACEMENT_CHARACTER :: string where
  "REPLACEMENT_CHARACTER = map char_of [0xEF, 0xBF, 0xBD :: nat]"

definition utf8_lead :: "nat \<Rightarrow> (nat \<times> nat \<times> nat) option" where
  "utf8_lead b =
     (if 0xC2 \<le> b \<and> b \<le> 0xDF then Some (1, 0x80, 0xBF)
      else if b = 0xE0 then Some (2, 0xA0, 0xBF)
      else if b = 0xED then Some (2, 0x80, 0x9F)
      else if 0xE1 \<le> b \<and> b \<le> 0xEF then Some (2, 0x80, 0xBF)
      else if b = 0xF0 then Some (3, 0x90, 0xBF)
      else if b = 0xF4 then Some (3, 0x80, 0x8F)
      else if 0xF1 \<le> b \<and> b \<le> 0xF3 then Some (3, 0x80, 0xBF)
      else None)"

fun utf8_continuation :: "nat \<Rightarrow> nat \<Rightarrow> nat \<Rightarrow> bytes \<Rightarrow> nat" where
  "utf8_continuation 0 lower upper bs = 0"
| "utf8_continuation (Suc n) lower upper [] = 0"
| "utf8_continuation (Suc n) lower upper (b # r) =
     (if lower \<le> unat b \<and> unat b \<le> upper then Suc (utf8_continuation n 0x80 0xBF r)
      else 0)"

function utf8_decoder :: "bytes \<Rightarrow> string" where
  "utf8_decoder [] = []"
| "utf8_decoder (b # r) =
     (if unat b < 0x80 then char_of (unat b) # utf8_decoder r
      else (case utf8_lead (unat b) of
              None \<Rightarrow> REPLACEMENT_CHARACTER @ utf8_decoder r
            | Some (n, lower, upper) \<Rightarrow>
                (if utf8_continuation n lower upper r = n
                 then map (\<lambda>x. char_of (unat x)) (b # take n r) @ utf8_decoder (drop n r)
                 else REPLACEMENT_CHARACTER
                      @ utf8_decoder (drop (utf8_continuation n lower upper r) r))))"
  by pat_completeness auto
termination
  by (relation "measure length") auto

declare utf8_decoder.simps [simp del]

definition TextDecoder_decode :: "bytes \<Rightarrow> string" where
  "TextDecoder_decode bs =
     utf8_decoder (if take 3 bs = [0xEF, 0xBB, 0xBF] then drop 3 bs else bs)"

text \<open>
  \<open>s.length\<close> and \<open>s.slice\<close> count UTF-16 code units. \<open>utf16_units\<close> cuts the UTF-8
  bytes of a string into its code units: a character of one, two or three bytes is
  one unit; a character of four bytes is a pair of surrogates, which are given the
  first and the last two of its bytes. Neither of these is white space, a digit or a
  sign, which is all that the code that slices strings asks of a unit.
\<close>

function utf16_units :: "string \<Rightarrow> string list" where
  "utf16_units [] = []"
| "utf16_units (c # r) =
     (if (of_char c :: nat) < 0xC0 then [c] # utf16_units r
      else if (of_char c :: nat) < 0xE0 then (c # take 1 r) # utf16_units (drop 1 r)
      else if (of_char c :: nat) < 0xF0 then (c # take 2 r) # utf16_units (drop 2 r)
      else (c # take 1 r) # take 2 (drop 1 r) # utf16_units (drop 3 r))"
  by pat_completeness auto
termination
  by (relation "measure length") auto

declare utf16_units.simps [simp del]

text \<open>
  \<open>String.prototype.trim\<close> removes white space and line terminators from both ends.
  On the UTF-8 bytes these are the six ASCII characters and the encodings of U+00A0,
  U+1680, U+2000 to U+200A, U+2028, U+2029, U+202F, U+205F, U+3000 and U+FEFF.
\<close>

definition js_whitespace_seqs :: "string list" where
  "js_whitespace_seqs =
     map (map char_of)
       ([[9], [10], [11], [12], [13], [32], [0xC2, 0xA0], [0xE1, 0x9A, 0x80]]
        @ map (\<lambda>n. [0xE2, 0x80, 0x80 + n]) [0 ..< 11]
        @ [[0xE2, 0x80, 0xA8], [0xE2, 0x80, 0xA9], [0xE2, 0x80, 0xAF],
           [0xE2, 0x81, 0x9F], [0xE3, 0x80, 0x80], [0xEF, 0xBB, 0xBF :: nat]])"

definition ws_prefix :: "string list \<Rightarrow> string \<Rightarrow> nat" where
  "ws_prefix seqs s =
     (case find (\<lambda>w. take (length w) s = w) seqs of None \<Rightarrow> 0 | Some w \<Rightarrow> length w)"

function trim_with :: "string list \<Rightarrow> string \<Rightarrow> string" where
  "trim_with seqs s =
     (if ws_prefix seqs s = 0 then s else trim_with seqs (drop (ws_prefix seqs s) s))"
  by pat_completeness auto
termination
proof (relation "measure (\<lambda>(seqs, s). length s)")
  fix seqs :: "string list" and s :: string
  assume a: "ws_prefix seqs s \<noteq> 0"
  then obtain w where "find (\<lambda>w. take (length w) s = w) seqs = Some w" "length w \<noteq> 0"
    by (auto simp: ws_prefix_def split: option.splits)
  then have "take (length w) s = w" "w \<noteq> []"
    by (auto simp: find_Some_iff)
  then have "s \<noteq> []" by auto
  with a show "((seqs, drop (ws_prefix seqs s) s), (seqs, s)) \<in> measure (\<lambda>(seqs, s). length s)"
    by simp
qed simp

declare trim_with.simps [simp del]

definition trimStart :: "string \<Rightarrow> string" where
  "trimStart s = trim_with js_whitespace_seqs s"

definition trimEnd :: "string \<Rightarrow> string" where
  "trimEnd s = rev (trim_with (map rev js_whitespace_seqs) (rev s))"

definition trim :: "string \<Rightarrow> string" where
  "trim s = trimEnd (trimStart s)"

text \<open>
  The libraries the package calls but does not contain: pako (DEFLATE), the noble
  curve, hash and cipher packages, and the platform's URL parser. They are parameters
  of the model. \<open>None\<close> is a call that throws.
\<close>

record url =
  url_query :: "(string \<times> string) list"
  url_pathname :: string

record libs =
  pako_deflate :: "bytes \<Rightarrow> bytes option"
  pako_inflate :: "bytes \<Rightarrow> bytes option"
  sha256 :: "bytes \<Rightarrow> bytes"
  secp_sign :: "bytes \<Rightarrow> bytes \<Rightarrow> (bytes \<times> nat) option"
  secp_recover :: "bytes \<Rightarrow> bytes \<Rightarrow> nat \<Rightarrow> bytes option"
  secp_getPublicKey :: "bytes \<Rightarrow> bytes option"
  secp_pointFromHex :: "bytes \<Rightarrow> bytes option"
  hkdf_sha256 :: "bytes \<Rightarrow> bytes \<Rightarrow> bytes \<Rightarrow> nat \<Rightarrow> bytes"
  chacha_encrypt :: "bytes \<Rightarrow> bytes \<Rightarrow> bytes \<Rightarrow> bytes \<Rightarrow> bytes option"
  chacha_decrypt :: "bytes \<Rightarrow> bytes \<Rightarrow> bytes \<Rightarrow> bytes \<Rightarrow> bytes option"
  url_parser :: "string \<Rightarrow> url option"

section \<open>utils/compression\<close>

definition COMPRESSION_MARKER :: byte where
  "COMPRESSION_MARKER = 0x78"

definition MAX_DECOMPRESSED_SIZE :: nat where
  "MAX_DECOMPRESSED_SIZE = 1024 * 1024"

definition MIN_SIZE_FOR_COMPRESSION :: nat where
  "MIN_SIZE_FOR_COMPRESSION = 100"

text \<open>
  \<open>compressIfSmaller\<close>: the \<open>catch\<close> around \<open>pako.deflate\<close> falls through to
  \<open>return data\<close>.
\<close>

definition compressIfSmaller :: "libs \<Rightarrow> bytes \<Rightarrow> bytes" where
  "compressIfSmaller L data =
     (if length data < MIN_SIZE_FOR_COMPRESSION then data
      else (case pako_deflate L data of
              Some compressed \<Rightarrow>
                (if length compressed + 1 < length data
                 then COMPRESSION_MARKER # compressed
                 else data)
            | None \<Rightarrow> data))"

text \<open>
  \<open>decompress\<close>: \<open>pako.inflate\<close> is outside any \<open>try\<close>, so its failure is the
  failure of \<open>decompress\<close>.
\<close>

definition decompress :: "libs \<Rightarrow> bytes \<Rightarrow> error + bytes" where
  "decompress L data =
     (if length data = 0 \<or> hd data \<noteq> COMPRESSION_MARKER then Inr data
      else (case pako_inflate L (tl data) of
              None \<Rightarrow> Inl LibraryError
            | Some decompressed \<Rightarrow>
                (if length decompressed > MAX_DECOMPRESSED_SIZE
                 then Inl DecompressedSizeExceedsMaximum
                 else Inr decompressed)))"

definition isCompressed :: "bytes \<Rightarrow> bool" where
  "isCompressed data \<longleftrightarrow> length data > 0 \<and> hd data = COMPRESSION_MARKER"


section \<open>utils/hex\<close>

definition hex_digit_value :: "char \<Rightarrow> nat option" where
  "hex_digit_value c =
     (let n = (of_char c :: nat) in
      if 48 \<le> n \<and> n \<le> 57 then Some (n - 48)
      else if 97 \<le> n \<and> n \<le> 102 then Some (n - 87)
      else if 65 \<le> n \<and> n \<le> 70 then Some (n - 55)
      else None)"

text \<open>
  \<open>parseInt(s, 16)\<close>: leading white space is skipped as by \<open>trimStart\<close>, a sign and
  a \<open>0x\<close> prefix are accepted, the longest run of hexadecimal digits is read, and
  \<open>NaN\<close> (here \<open>None\<close>) is the result when that run is empty.
\<close>

definition parseInt16 :: "string \<Rightarrow> int option" where
  "parseInt16 s =
     (let s1 = trimStart s;
          sgn = (if s1 \<noteq> [] \<and> hd s1 = CHR ''-'' then - 1 else 1 :: int);
          s2 = (if s1 \<noteq> [] \<and> (hd s1 = CHR ''+'' \<or> hd s1 = CHR ''-'') then tl s1 else s1);
          s3 = (if take 2 s2 = ''0x'' \<or> take 2 s2 = ''0X'' then drop 2 s2 else s2);
          z = takeWhile (\<lambda>c. hex_digit_value c \<noteq> None) s3
      in if z = [] then None
         else Some (sgn * int (foldl (\<lambda>a c. 16 * a + the (hex_digit_value c)) 0 z)))"

text \<open>Storing a number in a \<open>Uint8Array\<close>: \<open>NaN\<close> becomes 0, an integer wraps.\<close>

definition to_uint8 :: "int option \<Rightarrow> byte" where
  "to_uint8 v = (case v of None \<Rightarrow> 0 | Some n \<Rightarrow> word_of_int n)"

text \<open>
  \<open>hexToBytes\<close>: \<open>hex.length\<close> and \<open>hex.slice(i * 2, i * 2 + 2)\<close> count code
  units.
\<close>

definition hexToBytes :: "string \<Rightarrow> error + bytes" where
  "hexToBytes hex =
     (let units = utf16_units hex in
      if length units mod 2 \<noteq> 0 then Inl InvalidHexLength
      else Inr (map (\<lambda>i. to_uint8 (parseInt16 (concat (take 2 (drop (i * 2) units)))))
                  [0 ..< length units div 2]))"

definition hex_char :: "nat \<Rightarrow> char" where
  "hex_char n = (if n < 10 then char_of (48 + n) else char_of (87 + n))"

text \<open>\<open>b.toString(16).padStart(2, "0")\<close> for a byte: two lower-case digits.\<close>

definition byte_hex :: "byte \<Rightarrow> string" where
  "byte_hex b = [hex_char (unat b div 16), hex_char (unat b mod 16)]"

definition bytesToHex :: "bytes \<Rightarrow> string" where
  "bytesToHex bs = concat (map byte_hex bs)"

section \<open>utils/base64url\<close>

definition b64_char :: "nat \<Rightarrow> char" where
  "b64_char n =
     (if n < 26 then char_of (65 + n)
      else if n < 52 then char_of (71 + n)
      else if n < 62 then char_of (n - 4)
      else if n = 62 then CHR ''+'' else CHR ''/'')"

text \<open>\<open>Buffer.toString("base64")\<close>: the standard alphabet, padded with \<open>=\<close>.\<close>

fun b64_encode :: "bytes \<Rightarrow> string" where
  "b64_encode [] = []"
| "b64_encode [a] =
     [b64_char (unat a div 4), b64_char (unat a mod 4 * 16), CHR ''='', CHR ''='']"
| "b64_encode [a, b] =
     [b64_char (unat a div 4), b64_char (unat a mod 4 * 16 + unat b div 16),
      b64_char (unat b mod 16 * 4), CHR ''='']"
| "b64_encode (a # b # c # r) =
     [b64_char (unat a div 4), b64_char (unat a mod 4 * 16 + unat b div 16),
      b64_char (unat b mod 16 * 4 + unat c div 64), b64_char (unat c mod 64)]
     @ b64_encode r"

definition replace_char :: "char \<Rightarrow> char \<Rightarrow> string \<Rightarrow> string" where
  "replace_char a b s = map (\<lambda>c. if c = a then b else c) s"

definition strip_trailing_eq :: "string \<Rightarrow> string" where
  "strip_trailing_eq s = rev (dropWhile (\<lambda>c. c = CHR ''='') (rev s))"

definition base64UrlEncode :: "bytes \<Rightarrow> string" where
  "base64UrlEncode data =
     strip_trailing_eq
       (replace_char CHR ''/'' CHR ''_'' (replace_char CHR ''+'' CHR ''-'' (b64_encode data)))"

definition unbase64 :: "char \<Rightarrow> nat option" where
  "unbase64 c =
     (let n = (of_char c :: nat) in
      if 65 \<le> n \<and> n \<le> 90 then Some (n - 65)
      else if 97 \<le> n \<and> n \<le> 122 then Some (n - 71)
      else if 48 \<le> n \<and> n \<le> 57 then Some (n + 4)
      else if c = CHR ''+'' \<or> c = CHR ''-'' then Some 62
      else if c = CHR ''/'' \<or> c = CHR ''_'' then Some 63
      else None)"

text \<open>
  \<open>Buffer.from(s, "base64")\<close> never throws: characters outside both alphabets are
  skipped, decoding stops at the first \<open>=\<close>, and a final group of two or three
  characters gives one or two bytes.
\<close>

fun b64_sextets :: "string \<Rightarrow> nat list" where
  "b64_sextets [] = []"
| "b64_sextets (c # r) =
     (if c = CHR ''='' then []
      else (case unbase64 c of Some v \<Rightarrow> v # b64_sextets r | None \<Rightarrow> b64_sextets r))"

fun b64_groups :: "nat list \<Rightarrow> bytes" where
  "b64_groups (a # b # c # d # r) =
     [of_nat (a * 4 + b div 16), of_nat (b mod 16 * 16 + c div 4), of_nat (c mod 4 * 64 + d)]
     @ b64_groups r"
| "b64_groups [a, b, c] = [of_nat (a * 4 + b div 16), of_nat (b mod 16 * 16 + c div 4)]"
| "b64_groups [a, b] = [of_nat (a * 4 + b div 16)]"
| "b64_groups _ = []"

definition buffer_from_base64 :: "string \<Rightarrow> bytes" where
  "buffer_from_base64 s = b64_groups (b64_sextets s)"

definition base64UrlDecode :: "string \<Rightarrow> bytes" where
  "base64UrlDecode str =
     (let base64 = replace_char CHR ''_'' CHR ''/'' (replace_char CHR ''-'' CHR ''+'' str);
          padLength = (4 - length base64 mod 4) mod 4
      in buffer_from_base64 (base64 @ replicate padLength CHR ''=''))"

section \<open>invite/encoding\<close>

definition IMESSAGE_SEPARATOR :: string where
  "IMESSAGE_SEPARATOR = ''*''"

definition IMESSAGE_CHUNK_SIZE :: nat where
  "IMESSAGE_CHUNK_SIZE = 300"

text \<open>
  The loop of \<open>insertSeparators\<close>: \<open>for (i = 0; i < str.length; i += every)\<close>. It is
  only called with \<open>every = 300\<close>; the guard on 0 keeps the model total.
\<close>

function chunks :: "nat \<Rightarrow> string \<Rightarrow> string list" where
  "chunks every str =
     (if str = [] \<or> every = 0 then [] else take every str # chunks every (drop every str))"
  by pat_completeness auto
termination
  by (relation "measure (\<lambda>(every, str). length str)") auto

declare chunks.simps [simp del]

fun join :: "string \<Rightarrow> string list \<Rightarrow> string" where
  "join sep [] = []"
| "join sep [p] = p"
| "join sep (p # q # ps) = p @ sep @ join sep (q # ps)"

definition insertSeparators :: "string \<Rightarrow> string \<Rightarrow> nat \<Rightarrow> string" where
  "insertSeparators str separator every =
     (if length str \<le> every then str else join separator (chunks every str))"

definition encodeToSlug :: "libs \<Rightarrow> bytes \<Rightarrow> string" where
  "encodeToSlug L data =
     insertSeparators (base64UrlEncode (compressIfSmaller L data))
       IMESSAGE_SEPARATOR IMESSAGE_CHUNK_SIZE"

definition decodeFromSlug :: "libs \<Rightarrow> string \<Rightarrow> error + bytes" where
  "decodeFromSlug L slug =
     decompress L (base64UrlDecode (filter (\<lambda>c. c \<noteq> CHR ''*'') slug))"

definition getInviteBaseURL :: "string option \<Rightarrow> string" where
  "getInviteBaseURL env =
     (let e = (case env of None \<Rightarrow> ''dev'' | Some e \<Rightarrow> e) in
      if e = ''production'' then ''https://popup.convos.org/v2''
      else ''https://dev.convos.org/v2'')"

text \<open>
  \<open>encodeURIComponent\<close> on the UTF-8 bytes of a string: letters, digits and
  \<open>- _ . ! ~ * ' ( )\<close> stay, every other byte becomes \<open>%XX\<close> in upper case.
\<close>

definition uri_unreserved :: "char \<Rightarrow> bool" where
  "uri_unreserved c \<longleftrightarrow>
     (let n = (of_char c :: nat) in
      (65 \<le> n \<and> n \<le> 90) \<or> (97 \<le> n \<and> n \<le> 122) \<or> (48 \<le> n \<and> n \<le> 57) \<or>
      c \<in> set ''-_.!~*'' \<or> n = 39 \<or> c \<in> set ''()'')"

definition upper_hex_char :: "nat \<Rightarrow> char" where
  "upper_hex_char n = (if n < 10 then char_of (48 + n) else char_of (55 + n))"

definition encodeURIComponent :: "string \<Rightarrow> string" where
  "encodeURIComponent s =
     concat (map (\<lambda>c. if uri_unreserved c then [c]
                       else [CHR ''%'', upper_hex_char (of_char c div 16),
                             upper_hex_char (of_char c mod 16)]) s)"

definition generateInviteURL :: "string \<Rightarrow> string option \<Rightarrow> string" where
  "generateInviteURL slug baseURL =
     (case baseURL of None \<Rightarrow> ''https://popup.convos.org/v2'' | Some b \<Rightarrow> b)
     @ ''?i='' @ encodeURIComponent slug"


text \<open>
  \<open>new URL(s)\<close> without a base: the parser drops leading C0 controls and spaces and
  all tabs and newlines, and fails unless the input then starts with a scheme, an ASCII
  letter followed by letters, digits, \<open>+\<close>, \<open>-\<close> or \<open>.\<close> up to a colon. What it does
  with an input that has a scheme is left to the platform's parser.
\<close>

definition ascii_alpha :: "char \<Rightarrow> bool" where
  "ascii_alpha c \<longleftrightarrow>
     (let n = (of_char c :: nat) in (65 \<le> n \<and> n \<le> 90) \<or> (97 \<le> n \<and> n \<le> 122))"

definition ascii_digit :: "char \<Rightarrow> bool" where
  "ascii_digit c \<longleftrightarrow> (let n = (of_char c :: nat) in 48 \<le> n \<and> n \<le> 57)"

definition scheme_char :: "char \<Rightarrow> bool" where
  "scheme_char c \<longleftrightarrow> ascii_alpha c \<or> ascii_digit c \<or> c \<in> set ''+-.''"

definition has_scheme :: "string \<Rightarrow> bool" where
  "has_scheme s =
     (let s1 = filter (\<lambda>c. (of_char c :: nat) \<notin> {9, 10, 13})
                 (dropWhile (\<lambda>c. (of_char c :: nat) \<le> 32) s)
      in case s1 of
           [] \<Rightarrow> False
         | c # r \<Rightarrow> ascii_alpha c \<and>
                    (case dropWhile scheme_char r of [] \<Rightarrow> False | d # _ \<Rightarrow> d = CHR '':''))"

definition URL_new :: "libs \<Rightarrow> string \<Rightarrow> url option" where
  "URL_new L s = (if has_scheme s then url_parser L s else None)"

definition searchParams_get :: "url \<Rightarrow> string \<Rightarrow> string option" where
  "searchParams_get u name = map_of (url_query u) name"

fun split_on :: "char \<Rightarrow> string \<Rightarrow> string list" where
  "split_on d [] = [[]]"
| "split_on d (c # r) =
     (if c = d then [] # split_on d r
      else (case split_on d r of [] \<Rightarrow> [[c]] | p # ps \<Rightarrow> (c # p) # ps))"

text \<open>
  \<open>parseInviteCode\<close>: \<open>if (iParam)\<close> and \<open>filter(Boolean)\<close> reject the empty string.
\<close>

definition parseInviteCode :: "libs \<Rightarrow> string \<Rightarrow> string" where
  "parseInviteCode L input =
     (let trimmed = trim input in
      case URL_new L trimmed of
        None \<Rightarrow> trimmed
      | Some u \<Rightarrow>
          (case searchParams_get u ''i'' of
             Some (c # cs) \<Rightarrow> c # cs
           | _ \<Rightarrow>
             (case searchParams_get u ''code'' of
                Some (c # cs) \<Rightarrow> c # cs
              | _ \<Rightarrow>
                (let pathParts = filter (\<lambda>p. p \<noteq> []) (split_on CHR ''/'' (url_pathname u)) in
                 if length pathParts > 0 then last pathParts else trimmed))))"


section \<open>protobufjs: the writer and the reader\<close>

text \<open>
  The encoders and decoders of the package are generated by protobufjs from the field
  lists in \<open>proto/invite\<close> and \<open>proto/conversation-metadata\<close>. The writer and the
  reader below follow its \<open>Writer\<close> and \<open>Reader\<close> on a plain \<open>Uint8Array\<close>. Every
  error the reader throws is \<open>None\<close>.

  \<open>writeVarint32\<close>: \<open>while (val > 127) { buf[pos++] = val & 127 | 128; val >>>= 7 }\<close>.
\<close>

function varint_bytes :: "nat \<Rightarrow> bytes" where
  "varint_bytes val =
     (if val > 127 then of_nat (val mod 128 + 128) # varint_bytes (val div 128)
      else [of_nat val])"
  by pat_completeness auto
termination
  by (relation "measure id") auto

declare varint_bytes.simps [simp del]

definition write_uint32 :: "nat \<Rightarrow> bytes" where
  "write_uint32 v = varint_bytes (v mod 2 ^ 32)"

fun le_bytes :: "nat \<Rightarrow> nat \<Rightarrow> bytes" where
  "le_bytes 0 u = []"
| "le_bytes (Suc n) u = of_nat (u mod 256) # le_bytes n (u div 256)"

definition le_nat :: "bytes \<Rightarrow> nat" where
  "le_nat bs = foldr (\<lambda>b acc. unat b + 256 * acc) bs 0"

definition enc_tag :: "nat \<Rightarrow> nat \<Rightarrow> bytes" where
  "enc_tag f wt = write_uint32 (f * 8 + wt)"

definition enc_bytes_field :: "nat \<Rightarrow> bytes \<Rightarrow> bytes" where
  "enc_bytes_field f v = enc_tag f 2 @ write_uint32 (length v) @ v"

definition enc_string_field :: "nat \<Rightarrow> string \<Rightarrow> bytes" where
  "enc_string_field f v = enc_bytes_field f (utf8_encode v)"

text \<open>
  \<open>Long.fromBigInt\<close> keeps the low 64 bits of the value; \<open>sfixed64\<close> writes them as
  eight bytes, least significant first.
\<close>

definition enc_sfixed64_field :: "nat \<Rightarrow> int \<Rightarrow> bytes" where
  "enc_sfixed64_field f v = enc_tag f 1 @ le_bytes 8 (nat (v mod 2 ^ 64))"

definition enc_bool_field :: "nat \<Rightarrow> bool \<Rightarrow> bytes" where
  "enc_bool_field f v = enc_tag f 0 @ [if v then 1 else 0]"

text \<open>
  A field is written when the property is neither \<open>undefined\<close> nor \<open>null\<close>; an
  empty string or an empty byte array is written with length 0.
\<close>

definition enc_opt :: "('a \<Rightarrow> bytes) \<Rightarrow> 'a option \<Rightarrow> bytes" where
  "enc_opt enc v = (case v of None \<Rightarrow> [] | Some x \<Rightarrow> enc x)"

text \<open>
  \<open>Reader.uint32\<close> reads at most five bytes, the fifth masked with 15. Reading past
  the end of the buffer gives \<open>undefined\<close>, which is not below 128, so the reader runs
  on and throws at its range check. After five bytes that all have the high bit set
  it skips five more, and throws if they are not there.
\<close>

fun rd32 :: "nat \<Rightarrow> nat \<Rightarrow> bytes \<Rightarrow> (nat \<times> bytes) option" where
  "rd32 k acc [] = None"
| "rd32 k acc (b # r) =
     (let v = acc + (if k = 4 then unat b mod 16 else unat b mod 128) * 2 ^ (7 * k) in
      if unat b < 128 then Some (v, r)
      else if k = 4 then (if length r < 5 then None else Some (v, drop 5 r))
      else rd32 (Suc k) v r)"

definition read_uint32 :: "bytes \<Rightarrow> (nat \<times> bytes) option" where
  "read_uint32 bs = rd32 0 0 bs"

definition read_bytes :: "bytes \<Rightarrow> (bytes \<times> bytes) option" where
  "read_bytes bs =
     (case read_uint32 bs of
        None \<Rightarrow> None
      | Some (l, r) \<Rightarrow> if l > length r then None else Some (take l r, drop l r))"

definition to_signed64 :: "nat \<Rightarrow> int" where
  "to_signed64 u = (if u \<ge> 2 ^ 63 then int u - 2 ^ 64 else int u)"

definition read_sfixed64 :: "bytes \<Rightarrow> (int \<times> bytes) option" where
  "read_sfixed64 bs =
     (if length bs < 8 then None else Some (to_signed64 (le_nat (take 8 bs)), drop 8 bs))"

text \<open>What is read back from an \<open>sfixed64\<close> written from the bigint \<open>v\<close>.\<close>

definition wrap64 :: "int \<Rightarrow> int" where
  "wrap64 v = to_signed64 (nat (v mod 2 ^ 64))"

datatype kind = KBytes | KString | KSFixed64 | KBool

datatype wval =
    WBytes bytes
  | WString string
  | WLong int
  | WBool bool
  | WMessage "(nat \<times> wval) list"

definition read_value :: "kind \<Rightarrow> bytes \<Rightarrow> (wval \<times> bytes) option" where
  "read_value k bs =
     (case k of
        KBytes \<Rightarrow> map_option (\<lambda>(v, r). (WBytes v, r)) (read_bytes bs)
      | KString \<Rightarrow> map_option (\<lambda>(v, r). (WString (utf8_decode v), r)) (read_bytes bs)
      | KSFixed64 \<Rightarrow> map_option (\<lambda>(v, r). (WLong v, r)) (read_sfixed64 bs)
      | KBool \<Rightarrow> map_option (\<lambda>(v, r). (WBool (v \<noteq> 0), r)) (read_uint32 bs))"

text \<open>\<open>Reader.skip()\<close> without a length skips one varint of any size.\<close>

fun skip_varint :: "bytes \<Rightarrow> bytes option" where
  "skip_varint [] = None"
| "skip_varint (b # r) = (if unat b \<ge> 128 then skip_varint r else Some r)"

definition skip_n :: "nat \<Rightarrow> bytes \<Rightarrow> bytes option" where
  "skip_n n bs = (if n > length bs then None else Some (drop n bs))"

definition skip_plain :: "nat \<Rightarrow> bytes \<Rightarrow> bytes option" where
  "skip_plain wt bs =
     (if wt = 0 then skip_varint bs
      else if wt = 1 then skip_n 8 bs
      else if wt = 2 then (case read_uint32 bs of None \<Rightarrow> None | Some (l, r) \<Rightarrow> skip_n l r)
      else if wt = 5 then skip_n 4 bs
      else None)"

lemma rd32_length: "rd32 k acc bs = Some (v, r) \<Longrightarrow> length r < length bs"
  by (induction k acc bs rule: rd32.induct) (auto simp: Let_def split: if_splits)

lemma read_uint32_length: "read_uint32 bs = Some (v, r) \<Longrightarrow> length r < length bs"
  unfolding read_uint32_def by (rule rd32_length)

lemma skip_varint_length: "skip_varint bs = Some r \<Longrightarrow> length r < length bs"
  by (induction bs) (auto split: if_splits)

lemma skip_plain_length: "skip_plain wt bs = Some r \<Longrightarrow> length r \<le> length bs"
  by (auto simp: skip_plain_def skip_n_def split: if_splits option.splits
           dest!: skip_varint_length read_uint32_length)

text \<open>
  \<open>skipType(3)\<close> skips a group: fields are skipped until the matching end-group tag,
  nested groups included. The depth counter stands for the recursion of the reader.
\<close>

function skip_group :: "nat \<Rightarrow> bytes \<Rightarrow> bytes option" where
  "skip_group depth bs =
     (case read_uint32 bs of
        None \<Rightarrow> None
      | Some (t, r) \<Rightarrow>
          (if t mod 8 = 4 then (if depth = 0 then Some r else skip_group (depth - 1) r)
           else if t mod 8 = 3 then skip_group (Suc depth) r
           else (case skip_plain (t mod 8) r of
                   None \<Rightarrow> None
                 | Some r' \<Rightarrow> skip_group depth r')))"
  by pat_completeness auto
termination
proof (relation "measure (\<lambda>(depth, bs). length bs)")
  show "wf (measure (\<lambda>(depth, bs). length bs))" by simp
qed (auto dest!: read_uint32_length skip_plain_length)

declare skip_group.simps [simp del]

definition skipType :: "nat \<Rightarrow> bytes \<Rightarrow> bytes option" where
  "skipType wt bs = (if wt = 3 then skip_group 0 bs else skip_plain wt bs)"

lemma skip_group_length: "skip_group d bs = Some r \<Longrightarrow> length r < length bs"
proof (induction d bs rule: skip_group.induct)
  case (1 depth bs)
  from "1.prems" obtain t r0 where t: "read_uint32 bs = Some (t, r0)"
    by (subst (asm) skip_group.simps) (auto split: option.splits)
  note l0 = read_uint32_length [OF t]
  show ?case
  proof (cases "t mod 8 = 4")
    case True
    with "1.prems" t "1.IH"(1) [OF t] l0 show ?thesis
      by (subst (asm) skip_group.simps) (auto split: if_splits)
  next
    case f4: False
    show ?thesis
    proof (cases "t mod 8 = 3")
      case True
      with "1.prems" t f4 "1.IH"(2) [OF t] l0 show ?thesis
        by (subst (asm) skip_group.simps) (auto split: if_splits)
    next
      case f3: False
      from "1.prems" t f4 f3 obtain r' where r': "skip_plain (t mod 8) r0 = Some r'"
        and g: "skip_group depth r' = Some r"
        by (subst (asm) skip_group.simps) (auto split: option.splits)
      from "1.IH"(3) [OF t _ f4 f3 r' g] skip_plain_length [OF r'] l0
      show ?thesis by simp
    qed
  qed
qed

lemma skipType_length: "skipType wt bs = Some r \<Longrightarrow> length r \<le> length bs"
  by (auto simp: skipType_def split: if_splits
           dest!: skip_group_length skip_plain_length)

lemma read_value_length: "read_value k bs = Some (v, r) \<Longrightarrow> length r \<le> length bs"
  by (cases k)
     (auto simp: read_value_def read_bytes_def read_sfixed64_def
           split: option.splits if_splits dest!: read_uint32_length)

text \<open>
  The decoder protobufjs generates for a message of scalar fields:
  \<open>while (r.pos < c) { t = r.uint32(); switch (t >>> 3) { case f: m.f = r.read(); ...
  default: r.skipType(t & 7) } }\<close>. The field number alone selects the read; the wire
  type of the tag is only used to skip an unknown field. \<open>stop\<close> is the number of bytes
  after the end \<open>c\<close> of the message. The result lists the assignments in order.
\<close>

function decode_fields ::
  "(nat \<Rightarrow> kind option) \<Rightarrow> nat \<Rightarrow> bytes \<Rightarrow> (nat \<times> wval) list \<Rightarrow>
   ((nat \<times> wval) list \<times> bytes) option" where
  "decode_fields sch stop bs acc =
     (if length bs \<le> stop then Some (acc, bs)
      else (case read_uint32 bs of
              None \<Rightarrow> None
            | Some (t, r) \<Rightarrow>
                (case sch (t div 8) of
                   Some k \<Rightarrow>
                     (case read_value k r of
                        None \<Rightarrow> None
                      | Some (v, r') \<Rightarrow> decode_fields sch stop r' (acc @ [(t div 8, v)]))
                 | None \<Rightarrow>
                     (case skipType (t mod 8) r of
                        None \<Rightarrow> None
                      | Some r' \<Rightarrow> decode_fields sch stop r' acc))))"
  by pat_completeness auto
termination
proof (relation "measure (\<lambda>(sch, stop, bs, acc). length bs)")
  show "wf (measure (\<lambda>(sch, stop, bs, acc). length bs))" by simp
qed (auto dest!: read_uint32_length read_value_length skipType_length)

declare decode_fields.simps [simp del]

text \<open>
  A decoded message object: a field that was never assigned reads as the default on
  the prototype (\<open>""\<close>, an empty array, a zero \<open>Long\<close>, \<open>false\<close>); a field assigned
  more than once keeps the last value; a repeated field collects every value.
\<close>

definition field_last :: "nat \<Rightarrow> (nat \<times> wval) list \<Rightarrow> wval option" where
  "field_last f fs = map_of (rev fs) f"

definition msg_bytes :: "(nat \<times> wval) list \<Rightarrow> nat \<Rightarrow> bytes" where
  "msg_bytes fs f = (case field_last f fs of Some (WBytes b) \<Rightarrow> b | _ \<Rightarrow> [])"

definition msg_string :: "(nat \<times> wval) list \<Rightarrow> nat \<Rightarrow> string" where
  "msg_string fs f = (case field_last f fs of Some (WString s) \<Rightarrow> s | _ \<Rightarrow> [])"

definition msg_long :: "(nat \<times> wval) list \<Rightarrow> nat \<Rightarrow> int" where
  "msg_long fs f = (case field_last f fs of Some (WLong v) \<Rightarrow> v | _ \<Rightarrow> 0)"

definition msg_bool :: "(nat \<times> wval) list \<Rightarrow> nat \<Rightarrow> bool" where
  "msg_bool fs f = (case field_last f fs of Some (WBool b) \<Rightarrow> b | _ \<Rightarrow> False)"

definition msg_repeated :: "(nat \<times> wval) list \<Rightarrow> nat \<Rightarrow> (nat \<times> wval) list list" where
  "msg_repeated fs f =
     concat (map (\<lambda>(k, v). case v of WMessage m \<Rightarrow> if k = f then [m] else [] | _ \<Rightarrow> []) fs)"


section \<open>proto/invite\<close>

text \<open>
  Record fields carry a prefix for their record (\<open>ip_\<close> for \<open>InvitePayload\<close>, \<open>si_\<close>
  for \<open>SignedInvite\<close>, and so on) since several interfaces of the package share field
  names. A \<open>bigint\<close> is an \<open>int\<close>.
\<close>

record InvitePayload =
  ip_conversationToken :: bytes
  ip_creatorInboxId :: bytes
  ip_tag :: string
  ip_name :: "string option"
  ip_description :: "string option"
  ip_imageURL :: "string option"
  ip_conversationExpiresAtUnix :: "int option"
  ip_expiresAtUnix :: "int option"
  ip_expiresAfterUse :: bool

record SignedInvite =
  si_payload :: bytes
  si_signature :: bytes

definition InvitePayload_schema :: "nat \<Rightarrow> kind option" where
  "InvitePayload_schema =
     map_of [(1, KBytes), (2, KBytes), (3, KString), (4, KString), (5, KString),
             (6, KString), (7, KSFixed64), (8, KSFixed64), (9, KBool)]"

definition SignedInvite_schema :: "nat \<Rightarrow> kind option" where
  "SignedInvite_schema = map_of [(1, KBytes), (2, KBytes)]"

text \<open>\<open>x ? Long.fromBigInt(x) : undefined\<close>: the bigint 0 is falsy.\<close>

definition truthy_bigint :: "int option \<Rightarrow> int option" where
  "truthy_bigint v = (case v of None \<Rightarrow> None | Some n \<Rightarrow> if n \<noteq> 0 then Some n else None)"

definition encodeInvitePayload :: "InvitePayload \<Rightarrow> bytes" where
  "encodeInvitePayload payload =
     enc_bytes_field 1 (ip_conversationToken payload)
     @ enc_bytes_field 2 (ip_creatorInboxId payload)
     @ enc_string_field 3 (ip_tag payload)
     @ enc_opt (enc_string_field 4) (ip_name payload)
     @ enc_opt (enc_string_field 5) (ip_description payload)
     @ enc_opt (enc_string_field 6) (ip_imageURL payload)
     @ enc_opt (enc_sfixed64_field 7) (truthy_bigint (ip_conversationExpiresAtUnix payload))
     @ enc_opt (enc_sfixed64_field 8) (truthy_bigint (ip_expiresAtUnix payload))
     @ enc_bool_field 9 (ip_expiresAfterUse payload)"

text \<open>\<open>message.name || undefined\<close>: the empty string is falsy.\<close>

definition truthy_string :: "string \<Rightarrow> string option" where
  "truthy_string s = (if s = [] then None else Some s)"

text \<open>\<open>x && x.toString() !== "0" ? BigInt(x.toString()) : undefined\<close> on a \<open>Long\<close>.\<close>

definition nonzero_long :: "int \<Rightarrow> int option" where
  "nonzero_long v = (if v \<noteq> 0 then Some v else None)"

definition decodeInvitePayload :: "bytes \<Rightarrow> error + InvitePayload" where
  "decodeInvitePayload bs =
     (case decode_fields InvitePayload_schema 0 bs [] of
        None \<Rightarrow> Inl ProtobufDecodeError
      | Some (message, _) \<Rightarrow>
          Inr \<lparr> ip_conversationToken = msg_bytes message 1,
                ip_creatorInboxId = msg_bytes message 2,
                ip_tag = msg_string message 3,
                ip_name = truthy_string (msg_string message 4),
                ip_description = truthy_string (msg_string message 5),
                ip_imageURL = truthy_string (msg_string message 6),
                ip_conversationExpiresAtUnix = nonzero_long (msg_long message 7),
                ip_expiresAtUnix = nonzero_long (msg_long message 8),
                ip_expiresAfterUse = msg_bool message 9 \<rparr>)"

definition encodeSignedInvite :: "SignedInvite \<Rightarrow> bytes" where
  "encodeSignedInvite invite =
     enc_bytes_field 1 (si_payload invite) @ enc_bytes_field 2 (si_signature invite)"

definition decodeSignedInvite :: "bytes \<Rightarrow> error + SignedInvite" where
  "decodeSignedInvite bs =
     (case decode_fields SignedInvite_schema 0 bs [] of
        None \<Rightarrow> Inl ProtobufDecodeError
      | Some (message, _) \<Rightarrow>
          Inr \<lparr> si_payload = msg_bytes message 1, si_signature = msg_bytes message 2 \<rparr>)"

section \<open>proto/conversation-metadata\<close>

record ConversationProfile =
  cp_inboxId :: bytes
  cp_name :: "string option"
  cp_image :: "string option"

record ConversationCustomMetadata =
  cm_tag :: string
  cm_profiles :: "ConversationProfile list"
  cm_expiresAtUnix :: "int option"
  cm_imageEncryptionKey :: "bytes option"

definition ConversationProfile_schema :: "nat \<Rightarrow> kind option" where
  "ConversationProfile_schema = map_of [(1, KBytes), (2, KString), (3, KString)]"

definition ConversationCustomMetadata_schema :: "nat \<Rightarrow> kind option" where
  "ConversationCustomMetadata_schema = map_of [(1, KString), (3, KSFixed64), (4, KBytes)]"

definition encodeConversationProfile :: "ConversationProfile \<Rightarrow> bytes" where
  "encodeConversationProfile p =
     enc_bytes_field 1 (cp_inboxId p)
     @ enc_opt (enc_string_field 2) (cp_name p)
     @ enc_opt (enc_string_field 3) (cp_image p)"

definition encodeConversationMetadata :: "ConversationCustomMetadata \<Rightarrow> bytes" where
  "encodeConversationMetadata metadata =
     enc_string_field 1 (cm_tag metadata)
     @ concat (map (\<lambda>p. enc_bytes_field 2 (encodeConversationProfile p))
                 (cm_profiles metadata))
     @ enc_opt (enc_sfixed64_field 3) (truthy_bigint (cm_expiresAtUnix metadata))
     @ enc_opt (enc_bytes_field 4) (cm_imageEncryptionKey metadata)"

lemma decode_fields_length:
  "decode_fields sch stop bs acc = Some (fs, r) \<Longrightarrow> length r \<le> length bs"
proof (induction sch stop bs acc rule: decode_fields.induct)
  case (1 sch stop bs acc)
  show ?case
  proof (cases "length bs \<le> stop")
    case True
    with "1.prems" show ?thesis by (simp add: decode_fields.simps)
  next
    case False
    from "1.prems" False obtain t r0 where t: "read_uint32 bs = Some (t, r0)"
      by (subst (asm) decode_fields.simps) (auto split: option.splits)
    note l0 = read_uint32_length [OF t]
    show ?thesis
    proof (cases "sch (t div 8)")
      case None
      from "1.prems" False t None obtain r' where r': "skipType (t mod 8) r0 = Some r'"
        and d: "decode_fields sch stop r' acc = Some (fs, r)"
        by (subst (asm) decode_fields.simps) (auto split: option.splits)
      from "1.IH"(1) [OF False t refl None r' d] skipType_length [OF r'] l0
      show ?thesis by simp
    next
      case (Some k)
      from "1.prems" False t Some obtain v r' where r': "read_value k r0 = Some (v, r')"
        and d: "decode_fields sch stop r' (acc @ [(t div 8, v)]) = Some (fs, r)"
        by (subst (asm) decode_fields.simps) (auto split: option.splits)
      from "1.IH"(2) [OF False t refl Some r' refl d] read_value_length [OF r'] l0
      show ?thesis by simp
    qed
  qed
qed

text \<open>
  The decoder of \<open>ConversationCustomMetadata\<close>. Field 2 is the repeated message:
  \<open>m.profiles.push(ConversationProfile.decode(r, r.uint32()))\<close>. The nested decoder
  reads fields while the position is before its end; protobufjs does not check that
  the last field stops there. An end beyond the buffer makes the nested loop run into
  the range check of the reader.
\<close>

function decode_metadata_fields ::
  "bytes \<Rightarrow> (nat \<times> wval) list \<Rightarrow> (nat \<times> wval) list option" where
  "decode_metadata_fields bs acc =
     (if length bs \<le> 0 then Some acc
      else (case read_uint32 bs of
              None \<Rightarrow> None
            | Some (t, r) \<Rightarrow>
                (if t div 8 = 2 then
                   (case read_uint32 r of
                      None \<Rightarrow> None
                    | Some (l, r1) \<Rightarrow>
                        (if l > length r1 then None
                         else (case decode_fields ConversationProfile_schema
                                      (length r1 - l) r1 [] of
                                 None \<Rightarrow> None
                               | Some (p, r2) \<Rightarrow>
                                   decode_metadata_fields r2 (acc @ [(2, WMessage p)]))))
                 else (case ConversationCustomMetadata_schema (t div 8) of
                         Some k \<Rightarrow>
                           (case read_value k r of
                              None \<Rightarrow> None
                            | Some (v, r') \<Rightarrow>
                                decode_metadata_fields r' (acc @ [(t div 8, v)]))
                       | None \<Rightarrow>
                           (case skipType (t mod 8) r of
                              None \<Rightarrow> None
                            | Some r' \<Rightarrow> decode_metadata_fields r' acc)))))"
  by pat_completeness auto
termination
proof (relation "measure (\<lambda>(bs, acc). length bs)")
  show "wf (measure (\<lambda>(bs, acc). length bs))" by simp
qed (auto dest!: read_uint32_length read_value_length skipType_length decode_fields_length)

declare decode_metadata_fields.simps [simp del]

text \<open>
  \<open>decodeConversationMetadata\<close> copies \<open>p.name\<close> and \<open>p.image\<close> as they are, and
  tests \<open>message.expiresAtUnix\<close> and \<open>message.imageEncryptionKey\<close> for truthiness
  only: a \<open>Long\<close> and a byte array are objects, hence truthy also when zero or empty.
\<close>

definition decodeConversationProfile :: "(nat \<times> wval) list \<Rightarrow> ConversationProfile" where
  "decodeConversationProfile p =
     \<lparr> cp_inboxId = msg_bytes p 1,
       cp_name = Some (msg_string p 2),
       cp_image = Some (msg_string p 3) \<rparr>"

definition decodeConversationMetadata :: "bytes \<Rightarrow> error + ConversationCustomMetadata" where
  "decodeConversationMetadata bs =
     (case decode_metadata_fields bs [] of
        None \<Rightarrow> Inl ProtobufDecodeError
      | Some message \<Rightarrow>
          Inr \<lparr> cm_tag = msg_string message 1,
                cm_profiles = map decodeConversationProfile (msg_repeated message 2),
                cm_expiresAtUnix = Some (msg_long message 3),
                cm_imageEncryptionKey = Some (msg_bytes message 4) \<rparr>)"


section \<open>crypto/secp256k1, crypto/hkdf, crypto/chacha20poly1305\<close>

text \<open>
  \<open>signWithRecovery\<close> copies the compact signature into a fresh 65-byte array and
  stores the recovery id in its last byte.
\<close>

definition signWithRecovery :: "libs \<Rightarrow> bytes \<Rightarrow> bytes \<Rightarrow> error + bytes" where
  "signWithRecovery L messageHash privateKey =
     (case secp_sign L messageHash privateKey of
        None \<Rightarrow> Inl LibraryError
      | Some (compactSig, recoveryId) \<Rightarrow>
          (if length compactSig > 65 then Inl LibraryError
           else Inr (take 64 (compactSig @ replicate 64 0) @ [of_nat recoveryId])))"

definition recoverPublicKey :: "libs \<Rightarrow> bytes \<Rightarrow> bytes \<Rightarrow> error + bytes" where
  "recoverPublicKey L messageHash signature =
     (if length signature \<noteq> 65 then Inl InvalidSignatureLength
      else (let compactSig = take 64 signature;
                recoveryId = unat (signature ! 64)
            in if recoveryId > 3 then Inl InvalidRecoveryId
               else (case secp_recover L messageHash compactSig recoveryId of
                       None \<Rightarrow> Inl LibraryError
                     | Some publicKey \<Rightarrow> Inr publicKey)))"

definition getPublicKey :: "libs \<Rightarrow> bytes \<Rightarrow> error + bytes" where
  "getPublicKey L privateKey =
     (case secp_getPublicKey L privateKey of
        None \<Rightarrow> Inl LibraryError
      | Some publicKey \<Rightarrow> Inr publicKey)"

definition hashSha256 :: "libs \<Rightarrow> bytes \<Rightarrow> bytes" where
  "hashSha256 L data = sha256 L data"

unbundle bit_operations_syntax

definition constantTimeEqual :: "bytes \<Rightarrow> bytes \<Rightarrow> bool" where
  "constantTimeEqual a b =
     (if length a \<noteq> length b then False
      else fold (\<lambda>(x, y) result. result OR (x XOR y)) (zip a b) (0 :: byte) = 0)"

definition normalizePublicKey :: "libs \<Rightarrow> bytes \<Rightarrow> error + bytes" where
  "normalizePublicKey L publicKey =
     (if length publicKey = 65 then Inr publicKey
      else if length publicKey = 33 then
        (case secp_pointFromHex L publicKey of
           None \<Rightarrow> Inl LibraryError
         | Some point \<Rightarrow> Inr point)
      else Inl InvalidPublicKeyLength)"

definition INVITE_SALT :: bytes where
  "INVITE_SALT = utf8_encode ''ConvosInviteV1''"

definition deriveInviteKey :: "libs \<Rightarrow> bytes \<Rightarrow> string \<Rightarrow> bytes" where
  "deriveInviteKey L privateKey inboxId =
     hkdf_sha256 L privateKey INVITE_SALT (utf8_encode (''inbox:'' @ inboxId)) 32"

definition NONCE_LENGTH :: nat where
  "NONCE_LENGTH = 12"

definition TAG_LENGTH :: nat where
  "TAG_LENGTH = 16"

text \<open>
  \<open>encrypt\<close> draws its nonce from \<open>randomBytes(12)\<close>; the nonce drawn is an argument
  of the model.
\<close>

definition encrypt :: "libs \<Rightarrow> bytes \<Rightarrow> bytes \<Rightarrow> bytes \<Rightarrow> bytes \<Rightarrow> error + bytes" where
  "encrypt L nonce plaintext key aad =
     (case chacha_encrypt L key nonce aad plaintext of
        None \<Rightarrow> Inl LibraryError
      | Some ciphertext \<Rightarrow> Inr (nonce @ ciphertext))"

definition decrypt :: "libs \<Rightarrow> bytes \<Rightarrow> bytes \<Rightarrow> bytes \<Rightarrow> error + bytes" where
  "decrypt L combined key aad =
     (if length combined < NONCE_LENGTH + TAG_LENGTH then Inl CiphertextTooShort
      else (let nonce = take NONCE_LENGTH combined;
                ciphertext = drop NONCE_LENGTH combined
            in case chacha_decrypt L key nonce aad ciphertext of
                 None \<Rightarrow> Inl LibraryError
               | Some plaintext \<Rightarrow> Inr plaintext))"

section \<open>invite/conversation-token\<close>

definition FORMAT_VERSION :: byte where
  "FORMAT_VERSION = 0x01"

definition TYPE_UUID :: byte where
  "TYPE_UUID = 0x01"

definition TYPE_STRING :: byte where
  "TYPE_STRING = 0x02"

definition is_hex_digit :: "char \<Rightarrow> bool" where
  "is_hex_digit c \<longleftrightarrow> hex_digit_value c \<noteq> None"

text \<open>
  \<open>UUID_PATTERN.test\<close>: groups of 8, 4, 4, 4 and 12 hexadecimal digits of either case,
  separated by hyphens, and nothing else.
\<close>

definition UUID_PATTERN_test :: "string \<Rightarrow> bool" where
  "UUID_PATTERN_test s \<longleftrightarrow>
     length s = 36 \<and>
     list_all (\<lambda>(i, c). if i \<in> {8, 13, 18, 23 :: nat} then c = CHR ''-'' else is_hex_digit c)
       (zip [0 ..< 36] s)"

definition uuidToBytes :: "string \<Rightarrow> bytes" where
  "uuidToBytes uuid =
     (let hex = filter (\<lambda>c. c \<noteq> CHR ''-'') uuid in
      map (\<lambda>i. to_uint8 (parseInt16 (take 2 (drop (i * 2) hex)))) [0 ..< 16])"

definition bytesToUuid :: "bytes \<Rightarrow> string" where
  "bytesToUuid bs =
     (let hex = concat (map byte_hex bs) in
      take 8 hex @ ''-'' @ take 4 (drop 8 hex) @ ''-'' @ take 4 (drop 12 hex) @ ''-''
      @ take 4 (drop 16 hex) @ ''-'' @ drop 20 hex)"

definition packConversationId :: "string \<Rightarrow> bytes" where
  "packConversationId conversationId =
     (if UUID_PATTERN_test conversationId then TYPE_UUID # uuidToBytes conversationId
      else (let stringBytes = utf8_encode conversationId in
            if length stringBytes \<le> 255
            then [TYPE_STRING, of_nat (length stringBytes)] @ stringBytes
            else [TYPE_STRING, 0x00, of_nat (length stringBytes div 256 mod 256),
                  of_nat (length stringBytes mod 256)] @ stringBytes))"

definition unpackConversationId :: "bytes \<Rightarrow> error + string" where
  "unpackConversationId data =
     (if length data < 1 then Inl InvalidPackedConversationId
      else if hd data = TYPE_UUID then
        (if length data \<noteq> 17 then Inl InvalidPackedConversationId
         else Inr (bytesToUuid (drop 1 data)))
      else if hd data = TYPE_STRING then
        (if length data < 2 then Inl InvalidPackedConversationId
         else if data ! 1 = 0x00 then
           (if length data < 4 then Inl InvalidPackedConversationId
            else (let len = unat (data ! 2) * 256 + unat (data ! 3) in
                  if length data \<noteq> 4 + len then Inl InvalidPackedConversationId
                  else Inr (TextDecoder_decode (take len (drop 4 data)))))
         else (let len = unat (data ! 1) in
               if length data \<noteq> 2 + len then Inl InvalidPackedConversationId
               else Inr (TextDecoder_decode (take len (drop 2 data)))))
      else Inl InvalidPackedConversationId)"

definition encryptConversationToken ::
  "libs \<Rightarrow> bytes \<Rightarrow> string \<Rightarrow> string \<Rightarrow> bytes \<Rightarrow> error + bytes" where
  "encryptConversationToken L nonce conversationId creatorInboxId privateKey =
     (let key = deriveInviteKey L privateKey creatorInboxId;
          aad = utf8_encode creatorInboxId;
          plaintext = packConversationId conversationId
      in case encrypt L nonce plaintext key aad of
           Inl e \<Rightarrow> Inl e
         | Inr encrypted \<Rightarrow> Inr (FORMAT_VERSION # encrypted))"

definition decryptConversationToken ::
  "libs \<Rightarrow> bytes \<Rightarrow> string \<Rightarrow> bytes \<Rightarrow> error + string" where
  "decryptConversationToken L tokenBytes creatorInboxId privateKey =
     (if length tokenBytes < 1 then Inl TokenTooShort
      else if hd tokenBytes \<noteq> FORMAT_VERSION then Inl UnsupportedTokenVersion
      else (let key = deriveInviteKey L privateKey creatorInboxId;
                aad = utf8_encode creatorInboxId;
                encrypted = drop 1 tokenBytes
            in case decrypt L encrypted key aad of
                 Inl e \<Rightarrow> Inl e
               | Inr plaintext \<Rightarrow> unpackConversationId plaintext))"

section \<open>invite/signed-invite\<close>

text \<open>
  A \<open>Date\<close> is its time value in milliseconds; \<open>Math.floor(ms / 1000)\<close> is \<open>div\<close>,
  which rounds down. The clock read by \<open>Date.now()\<close> is the argument \<open>now_ms\<close>.
\<close>

record CreateInviteOptions =
  o_conversationId :: string
  o_inviteTag :: string
  o_creatorInboxId :: string
  o_privateKey :: bytes
  o_name :: "string option"
  o_description :: "string option"
  o_imageURL :: "string option"
  o_expiresAt :: "int option"
  o_conversationExpiresAt :: "int option"
  o_expiresAfterUse :: "bool option"

record ParsedInvite =
  pi_signedInvite :: SignedInvite
  pi_payload :: InvitePayload
  pi_creatorInboxId :: string
  pi_isExpired :: bool
  pi_isConversationExpired :: bool

definition createInviteSlug :: "libs \<Rightarrow> bytes \<Rightarrow> CreateInviteOptions \<Rightarrow> error + string" where
  "createInviteSlug L nonce options =
     (case encryptConversationToken L nonce (o_conversationId options)
             (o_creatorInboxId options) (o_privateKey options) of
        Inl e \<Rightarrow> Inl e
      | Inr conversationToken \<Rightarrow>
          (case hexToBytes (o_creatorInboxId options) of
             Inl e \<Rightarrow> Inl e
           | Inr inboxBytes \<Rightarrow>
               (let payload =
                      \<lparr> ip_conversationToken = conversationToken,
                        ip_creatorInboxId = inboxBytes,
                        ip_tag = o_inviteTag options,
                        ip_name = o_name options,
                        ip_description = o_description options,
                        ip_imageURL = o_imageURL options,
                        ip_conversationExpiresAtUnix =
                          map_option (\<lambda>ms. ms div 1000) (o_conversationExpiresAt options),
                        ip_expiresAtUnix =
                          map_option (\<lambda>ms. ms div 1000) (o_expiresAt options),
                        ip_expiresAfterUse =
                          (case o_expiresAfterUse options of None \<Rightarrow> False | Some b \<Rightarrow> b) \<rparr>;
                    payloadBytes = encodeInvitePayload payload;
                    messageHash = hashSha256 L payloadBytes
                in case signWithRecovery L messageHash (o_privateKey options) of
                     Inl e \<Rightarrow> Inl e
                   | Inr signature \<Rightarrow>
                       Inr (encodeToSlug L
                              (encodeSignedInvite
                                 \<lparr> si_payload = payloadBytes, si_signature = signature \<rparr>)))))"

definition parseInviteSlug :: "libs \<Rightarrow> int \<Rightarrow> string \<Rightarrow> error + ParsedInvite" where
  "parseInviteSlug L now_ms slugOrUrl =
     (let slug = parseInviteCode L slugOrUrl in
      case decodeFromSlug L slug of
        Inl e \<Rightarrow> Inl e
      | Inr bs \<Rightarrow>
          (case decodeSignedInvite bs of
             Inl e \<Rightarrow> Inl e
           | Inr signedInvite \<Rightarrow>
               (case decodeInvitePayload (si_payload signedInvite) of
                  Inl e \<Rightarrow> Inl e
                | Inr payload \<Rightarrow>
                    (let now = now_ms div 1000 in
                     Inr \<lparr> pi_signedInvite = signedInvite,
                           pi_payload = payload,
                           pi_creatorInboxId = bytesToHex (ip_creatorInboxId payload),
                           pi_isExpired =
                             (case ip_expiresAtUnix payload of
                                None \<Rightarrow> False | Some t \<Rightarrow> t < now),
                           pi_isConversationExpired =
                             (case ip_conversationExpiresAtUnix payload of
                                None \<Rightarrow> False | Some t \<Rightarrow> t < now) \<rparr>))))"

text \<open>
  \<open>verifyInvite\<close>: the body of the \<open>try\<close> is \<open>verifyInvite_try\<close>; the \<open>catch\<close>
  returns \<open>false\<close>. The result type keeps the possibility of a throw visible.
\<close>

definition verifyInvite_try :: "libs \<Rightarrow> SignedInvite \<Rightarrow> bytes \<Rightarrow> error + bool" where
  "verifyInvite_try L signedInvite expectedPublicKey =
     (let messageHash = hashSha256 L (si_payload signedInvite) in
      case recoverPublicKey L messageHash (si_signature signedInvite) of
        Inl e \<Rightarrow> Inl e
      | Inr recoveredPublicKey \<Rightarrow>
          (case normalizePublicKey L recoveredPublicKey of
             Inl e \<Rightarrow> Inl e
           | Inr normalizedRecovered \<Rightarrow>
               (case normalizePublicKey L expectedPublicKey of
                  Inl e \<Rightarrow> Inl e
                | Inr normalizedExpected \<Rightarrow>
                    Inr (constantTimeEqual normalizedRecovered normalizedExpected))))"

definition verifyInvite :: "libs \<Rightarrow> SignedInvite \<Rightarrow> bytes \<Rightarrow> error + bool" where
  "verifyInvite L signedInvite expectedPublicKey =
     (case verifyInvite_try L signedInvite expectedPublicKey of
        Inl e \<Rightarrow> Inr False
      | Inr b \<Rightarrow> Inr b)"

definition verifyInviteWithPrivateKey :: "libs \<Rightarrow> SignedInvite \<Rightarrow> bytes \<Rightarrow> error + bool" where
  "verifyInviteWithPrivateKey L signedInvite privateKey =
     (case getPublicKey L privateKey of
        Inl e \<Rightarrow> Inl e
      | Inr publicKey \<Rightarrow> verifyInvite L signedInvite publicKey)"

definition decryptInviteConversationId :: "libs \<Rightarrow> ParsedInvite \<Rightarrow> bytes \<Rightarrow> error + string" where
  "decryptInviteConversationId L parsedInvite privateKey =
     decryptConversationToken L (ip_conversationToken (pi_payload parsedInvite))
       (pi_creatorInboxId parsedInvite) privateKey"


section \<open>content-types/invite-join-error\<close>

datatype InviteJoinErrorType = ConversationExpired | GenericFailure | Unknown

record InviteJoinError =
  e_errorType :: InviteJoinErrorType
  e_inviteTag :: string
  e_timestamp :: int

definition createConversationExpiredError :: "int \<Rightarrow> string \<Rightarrow> InviteJoinError" where
  "createConversationExpiredError now_ms inviteTag =
     \<lparr> e_errorType = ConversationExpired, e_inviteTag = inviteTag, e_timestamp = now_ms \<rparr>"

definition createGenericFailureError :: "int \<Rightarrow> string \<Rightarrow> InviteJoinError" where
  "createGenericFailureError now_ms inviteTag =
     \<lparr> e_errorType = GenericFailure, e_inviteTag = inviteTag, e_timestamp = now_ms \<rparr>"

definition getErrorMessage :: "InviteJoinError \<Rightarrow> string" where
  "getErrorMessage e =
     (case e_errorType e of
        ConversationExpired \<Rightarrow> ''This conversation is no longer available''
      | _ \<Rightarrow> ''Failed to join conversation'')"

section \<open>utils/random\<close>

definition ALPHANUMERIC :: string where
  "ALPHANUMERIC = ''ABCDEFGHIJKLMNOPQRSTUVWXYZabcdefghijklmnopqrstuvwxyz0123456789''"

text \<open>The bytes returned by \<open>randomBytes(length)\<close> are the argument \<open>rnd\<close>.\<close>

definition generateSecureRandomString :: "nat \<Rightarrow> bytes \<Rightarrow> string" where
  "generateSecureRandomString len rnd =
     map (\<lambda>b. ALPHANUMERIC ! (unat b mod length ALPHANUMERIC)) (take len rnd)"

definition generateInviteTag :: "bytes \<Rightarrow> string" where
  "generateInviteTag rnd = generateSecureRandomString 10 rnd"

section \<open>middleware/convos-middleware\<close>

text \<open>
  The messaging substrate is seen through the calls the middleware makes on it; a run
  of the middleware gives the list of these calls in order. \<open>DmSend e\<close> is
  \<open>ctx.conversation.send(encodeInviteJoinError(e))\<close>, \<open>Next\<close> is the call of the next
  handler of the chain. The agent of the model says whether \<open>refreshConsentList\<close>
  resolves and what \<open>getConversationById\<close> answers: \<open>None\<close> when it rejects,
  \<open>Some False\<close> for \<open>null\<close>, \<open>Some True\<close> for a conversation.
\<close>

datatype action =
    RefreshConsentList
  | Block "string list"
  | DmSend InviteJoinError
  | AddMembers string "string list"
  | Next

datatype content = CString string | CTextObject string | COther

record XMTPAgent =
  a_inboxId :: string
  a_refreshConsentList :: bool
  a_getConversationById :: "string \<Rightarrow> bool option"

record XMTPMessageContext =
  x_content :: content
  x_senderInboxId :: string

record InviteContext =
  ic_joinerInboxId :: string
  ic_conversationId :: string
  ic_inviteTag :: string
  ic_invite :: ParsedInvite

text \<open>
  An invite handler is given by the calls it makes on its context, \<open>accept()\<close> or
  \<open>reject(error?)\<close>, and by whether it ends by throwing.
\<close>

datatype handler_call = Accept | Reject "InviteJoinError option"

type_synonym InviteHandler = "InviteContext \<Rightarrow> handler_call list \<times> bool"

record ConvosMiddleware =
  mw_agent :: XMTPAgent
  mw_inboxId :: string
  mw_privateKey :: bytes
  mw_inviteBaseURL :: string
  mw_inviteHandlers :: "InviteHandler list"

datatype key_input = KeyBytes bytes | KeyString string

record ConvosMiddlewareOptions =
  co_privateKey :: "key_input option"
  co_inviteBaseURL :: "string option"
  co_env :: "string option"

definition strip_0x :: "string \<Rightarrow> string" where
  "strip_0x key = (if take 2 key = ''0x'' then drop 2 key else key)"

definition normalizePrivateKey :: "key_input \<Rightarrow> error + bytes" where
  "normalizePrivateKey key =
     (case key of KeyBytes b \<Rightarrow> Inr b | KeyString k \<Rightarrow> hexToBytes (strip_0x k))"

text \<open>
  \<open>if (options.privateKey)\<close>: a \<open>Uint8Array\<close> is truthy, a string is truthy unless
  empty. \<open>process.env.XMTP_WALLET_KEY || process.env.WALLET_KEY\<close> likewise.
\<close>

definition constructor_privateKey ::
  "(string \<Rightarrow> string option) \<Rightarrow> ConvosMiddlewareOptions \<Rightarrow> error + bytes" where
  "constructor_privateKey process_env options =
     (if co_privateKey options \<noteq> None \<and> co_privateKey options \<noteq> Some (KeyString [])
      then normalizePrivateKey (the (co_privateKey options))
      else (let envKey =
                  (case process_env ''XMTP_WALLET_KEY'' of
                     Some (c # cs) \<Rightarrow> Some (c # cs)
                   | _ \<Rightarrow> process_env ''WALLET_KEY'')
            in case envKey of
                 Some (c # cs) \<Rightarrow> normalizePrivateKey (KeyString (c # cs))
               | _ \<Rightarrow> Inl PrivateKeyRequired))"

text \<open>
  The constructor as compiled in \<open>dist/middleware/convos-middleware.js\<close>:
  \<open>this.inviteBaseURL = options.inviteBaseURL ?? getInviteBaseURL(options.env)\<close>.
\<close>

definition ConvosMiddleware_create ::
  "(string \<Rightarrow> string option) \<Rightarrow> XMTPAgent \<Rightarrow> ConvosMiddlewareOptions \<Rightarrow>
   error + ConvosMiddleware" where
  "ConvosMiddleware_create process_env agent options =
     (case constructor_privateKey process_env options of
        Inl e \<Rightarrow> Inl e
      | Inr key \<Rightarrow>
          Inr \<lparr> mw_agent = agent, mw_inboxId = a_inboxId agent, mw_privateKey = key,
                mw_inviteBaseURL =
                  (case co_inviteBaseURL options of
                     Some b \<Rightarrow> b | None \<Rightarrow> getInviteBaseURL (co_env options)),
                mw_inviteHandlers = [] \<rparr>)"

text \<open>
  The constructor as written in \<open>src/middleware/convos-middleware.ts\<close>:
  \<open>this.inviteBaseURL = options.inviteBaseURL ?? "https://popup.convos.org/v2"\<close>.
  Its options have no \<open>env\<close>; an \<open>env\<close> passed by the agent runtime is not read.
\<close>

definition ConvosMiddleware_create_ts ::
  "(string \<Rightarrow> string option) \<Rightarrow> XMTPAgent \<Rightarrow> ConvosMiddlewareOptions \<Rightarrow>
   error + ConvosMiddleware" where
  "ConvosMiddleware_create_ts process_env agent options =
     (case constructor_privateKey process_env options of
        Inl e \<Rightarrow> Inl e
      | Inr key \<Rightarrow>
          Inr \<lparr> mw_agent = agent, mw_inboxId = a_inboxId agent, mw_privateKey = key,
                mw_inviteBaseURL =
                  (case co_inviteBaseURL options of
                     Some b \<Rightarrow> b | None \<Rightarrow> ''https://popup.convos.org/v2''),
                mw_inviteHandlers = [] \<rparr>)"

record InviteResult =
  r_slug :: string
  r_url :: string
  r_qrData :: string

record ConvosGroupInviteOptions =
  g_name :: "string option"
  g_description :: "string option"
  g_imageURL :: "string option"
  g_conversationExpiresAt :: "int option"
  g_expiresAt :: "int option"
  g_expiresAfterUse :: "bool option"

definition createInviteInternal ::
  "libs \<Rightarrow> bytes \<Rightarrow> ConvosMiddleware \<Rightarrow> string \<Rightarrow> string \<Rightarrow>
   ConvosGroupInviteOptions option \<Rightarrow> error + InviteResult" where
  "createInviteInternal L nonce mw conversationId inviteTag options =
     (case createInviteSlug L nonce
             \<lparr> o_conversationId = conversationId,
               o_inviteTag = inviteTag,
               o_creatorInboxId = mw_inboxId mw,
               o_privateKey = mw_privateKey mw,
               o_name = Option.bind options g_name,
               o_description = Option.bind options g_description,
               o_imageURL = Option.bind options g_imageURL,
               o_expiresAt = Option.bind options g_expiresAt,
               o_conversationExpiresAt = Option.bind options g_conversationExpiresAt,
               o_expiresAfterUse = Option.bind options g_expiresAfterUse \<rparr> of
        Inl e \<Rightarrow> Inl e
      | Inr slug \<Rightarrow>
          (let url = generateInviteURL slug (Some (mw_inviteBaseURL mw)) in
           Inr \<lparr> r_slug = slug, r_url = url, r_qrData = url \<rparr>))"

definition encodeMetadata :: "libs \<Rightarrow> ConversationCustomMetadata \<Rightarrow> string" where
  "encodeMetadata L metadata =
     base64UrlEncode (compressIfSmaller L (encodeConversationMetadata metadata))"

definition decodeMetadata :: "libs \<Rightarrow> string \<Rightarrow> error + ConversationCustomMetadata" where
  "decodeMetadata L encoded =
     (case decompress L (base64UrlDecode encoded) of
        Inl e \<Rightarrow> Inl e
      | Inr bs \<Rightarrow> decodeConversationMetadata bs)"

definition getInviteTag :: "libs \<Rightarrow> string \<Rightarrow> error + string" where
  "getInviteTag L encodedMetadata =
     (case decodeMetadata L encodedMetadata of
        Inl e \<Rightarrow> Inl e
      | Inr metadata \<Rightarrow> Inr (cm_tag metadata))"

definition createInitialMetadata ::
  "libs \<Rightarrow> bytes \<Rightarrow> int option \<Rightarrow> ConversationCustomMetadata \<times> string" where
  "createInitialMetadata L rnd expiresAt =
     (let metadata =
            \<lparr> cm_tag = generateInviteTag rnd,
              cm_profiles = [],
              cm_expiresAtUnix = map_option (\<lambda>ms. ms div 1000) expiresAt,
              cm_imageEncryptionKey = None \<rparr>
      in (metadata, encodeMetadata L metadata))"

definition rotateInviteTag ::
  "libs \<Rightarrow> bytes \<Rightarrow> ConversationCustomMetadata \<Rightarrow>
   ConversationCustomMetadata \<times> string \<times> string" where
  "rotateInviteTag L rnd currentMetadata =
     (let newTag = generateInviteTag rnd;
          metadata = currentMetadata \<lparr> cm_tag := newTag \<rparr>
      in (metadata, encodeMetadata L metadata, newTag))"

definition extractText :: "content \<Rightarrow> string option" where
  "extractText c = (case c of CString s \<Rightarrow> Some s | CTextObject s \<Rightarrow> Some s | COther \<Rightarrow> None)"

definition slug_pattern_char :: "char \<Rightarrow> bool" where
  "slug_pattern_char c \<longleftrightarrow> ascii_alpha c \<or> ascii_digit c \<or> c \<in> set ''_-*''"

text \<open>
  \<open>looksLikeInviteSlug\<close>. A string that matches the pattern is ASCII, so its length
  in UTF-16 units is its length in bytes; one that does not match is rejected whatever
  its length.
\<close>

definition looksLikeInviteSlug :: "string \<Rightarrow> bool" where
  "looksLikeInviteSlug text =
     (let trimmed = trim text in
      if length trimmed < 50 then False
      else trimmed \<noteq> [] \<and> list_all slug_pattern_char trimmed)"

definition blockSender :: "XMTPAgent \<Rightarrow> string \<Rightarrow> action list" where
  "blockSender agent inboxId =
     (if a_refreshConsentList agent then [RefreshConsentList, Block [inboxId]]
      else [RefreshConsentList])"

definition sendError :: "InviteJoinError \<Rightarrow> action list" where
  "sendError e = [DmSend e]"

definition run_handler ::
  "int \<Rightarrow> InviteContext \<Rightarrow> InviteHandler \<Rightarrow> action list" where
  "run_handler now_ms ictx handler =
     (let (calls, throws) = handler ictx in
      concat (map (\<lambda>c. case c of
                          Accept \<Rightarrow> [AddMembers (ic_conversationId ictx) [ic_joinerInboxId ictx]]
                        | Reject err \<Rightarrow>
                            sendError (case err of
                                         Some e \<Rightarrow> e
                                       | None \<Rightarrow> createGenericFailureError now_ms (ic_inviteTag ictx)))
                  calls)
      @ (if throws then sendError (createGenericFailureError now_ms (ic_inviteTag ictx)) else []))"

text \<open>
  \<open>handleMessage\<close> returns whether the message was handled, with the calls made. One
  reading of the clock serves the whole delivery. A throw of
  \<open>verifyInviteWithPrivateKey\<close> or a rejection of \<open>getConversationById\<close> is not caught.
\<close>

definition handleMessage ::
  "libs \<Rightarrow> int \<Rightarrow> ConvosMiddleware \<Rightarrow> XMTPMessageContext \<Rightarrow> error + (bool \<times> action list)" where
  "handleMessage L now_ms mw ctx =
     (case extractText (x_content ctx) of
        None \<Rightarrow> Inr (False, [])
      | Some messageText \<Rightarrow>
          if messageText = [] then Inr (False, [])
          else (let senderInboxId = x_senderInboxId ctx in
            if senderInboxId = mw_inboxId mw then Inr (False, [])
            else (case parseInviteSlug L now_ms messageText of
              Inl e \<Rightarrow>
                (if looksLikeInviteSlug messageText
                 then Inr (True, blockSender (mw_agent mw) senderInboxId)
                 else Inr (False, []))
            | Inr parsedInvite \<Rightarrow>
                if pi_creatorInboxId parsedInvite \<noteq> mw_inboxId mw
                then Inr (True, blockSender (mw_agent mw) senderInboxId)
                else (case verifyInviteWithPrivateKey L (pi_signedInvite parsedInvite)
                             (mw_privateKey mw) of
                  Inl e \<Rightarrow> Inl e
                | Inr verified \<Rightarrow>
                    if \<not> verified then Inr (True, blockSender (mw_agent mw) senderInboxId)
                    else (let inviteTag = ip_tag (pi_payload parsedInvite) in
                      if pi_isExpired parsedInvite \<or> pi_isConversationExpired parsedInvite
                      then Inr (True, sendError (createConversationExpiredError now_ms inviteTag))
                      else (case decryptInviteConversationId L parsedInvite (mw_privateKey mw) of
                        Inl e \<Rightarrow> Inr (True, blockSender (mw_agent mw) senderInboxId)
                      | Inr conversationId \<Rightarrow>
                          (case a_getConversationById (mw_agent mw) conversationId of
                             None \<Rightarrow> Inl SubstrateError
                           | Some False \<Rightarrow>
                               Inr (True, sendError (createConversationExpiredError now_ms inviteTag))
                           | Some True \<Rightarrow>
                               (let inviteContext =
                                      \<lparr> ic_joinerInboxId = senderInboxId,
                                        ic_conversationId = conversationId,
                                        ic_inviteTag = inviteTag,
                                        ic_invite = parsedInvite \<rparr>
                                in Inr (True,
                                        concat (map (run_handler now_ms inviteContext)
                                                  (mw_inviteHandlers mw)))))))))))"

definition middleware ::
  "libs \<Rightarrow> int \<Rightarrow> ConvosMiddleware \<Rightarrow> XMTPMessageContext \<Rightarrow> error + action list" where
  "middleware L now_ms mw ctx =
     (case handleMessage L now_ms mw ctx of
        Inl e \<Rightarrow> Inl e
      | Inr (handled, acts) \<Rightarrow> Inr (if \<not> handled then acts @ [Next] else acts))"


section \<open>middleware/convos-group\<close>

text \<open>
  The wrapped group is its id and its \<open>appData\<close>; \<open>updateAppData\<close> overwrites the
  latter. The fresh tag of \<open>createInitialMetadata\<close> comes from the random bytes \<open>rnd\<close>.
\<close>

record XMTPGroup =
  grp_id :: string
  grp_appData :: string

record SetConversationProfileOptions =
  sp_name :: "string option"
  sp_image :: "string option"

fun findIndex :: "('a \<Rightarrow> bool) \<Rightarrow> 'a list \<Rightarrow> nat option" where
  "findIndex P [] = None"
| "findIndex P (x # xs) = (if P x then Some 0 else map_option Suc (findIndex P xs))"

definition current_metadata :: "libs \<Rightarrow> bytes \<Rightarrow> XMTPGroup \<Rightarrow> ConversationCustomMetadata" where
  "current_metadata L rnd grp =
     (if grp_appData grp \<noteq> [] then
        (case decodeMetadata L (grp_appData grp) of
           Inl e \<Rightarrow> fst (createInitialMetadata L rnd None)
         | Inr metadata \<Rightarrow> metadata)
      else fst (createInitialMetadata L rnd None))"

text \<open>
  \<open>setConversationProfile\<close>. The model returns, with the updated group, the metadata
  value that is passed to \<open>encodeMetadata\<close>.
\<close>

definition setConversationProfile ::
  "libs \<Rightarrow> bytes \<Rightarrow> ConvosMiddleware \<Rightarrow> XMTPGroup \<Rightarrow> SetConversationProfileOptions \<Rightarrow>
   error + (ConversationCustomMetadata \<times> XMTPGroup)" where
  "setConversationProfile L rnd mw grp options =
     (let inboxIdHex = mw_inboxId mw in
      case hexToBytes inboxIdHex of
        Inl e \<Rightarrow> Inl e
      | Inr inboxIdBytes \<Rightarrow>
          (let metadata = current_metadata L rnd grp;
               existingIndex =
                 findIndex (\<lambda>p. bytesToHex (cp_inboxId p) = inboxIdHex) (cm_profiles metadata);
               profile = \<lparr> cp_inboxId = inboxIdBytes, cp_name = sp_name options,
                           cp_image = sp_image options \<rparr>;
               profiles =
                 (case existingIndex of
                    Some i \<Rightarrow> (cm_profiles metadata) [i := profile]
                  | None \<Rightarrow> cm_profiles metadata @ [profile]);
               metadata' = metadata \<lparr> cm_profiles := profiles \<rparr>;
               encodedMetadata = encodeMetadata L metadata'
           in Inr (metadata', grp \<lparr> grp_appData := encodedMetadata \<rparr>)))"

definition initializeMetadata :: "libs \<Rightarrow> bytes \<Rightarrow> XMTPGroup \<Rightarrow> string \<times> XMTPGroup" where
  "initializeMetadata L rnd grp =
     (let (metadata, encodedMetadata) = createInitialMetadata L rnd None in
      (cm_tag metadata, grp \<lparr> grp_appData := encodedMetadata \<rparr>))"

definition group_createInvite ::
  "libs \<Rightarrow> bytes \<Rightarrow> bytes \<Rightarrow> ConvosMiddleware \<Rightarrow> XMTPGroup \<Rightarrow>
   ConvosGroupInviteOptions option \<Rightarrow> error + (InviteResult \<times> XMTPGroup)" where
  "group_createInvite L rnd nonce mw grp options =
     (let (inviteTag, grp') =
            (if grp_appData grp \<noteq> [] then
               (case decodeMetadata L (grp_appData grp) of
                  Inl e \<Rightarrow> initializeMetadata L rnd grp
                | Inr metadata \<Rightarrow>
                    if cm_tag metadata \<noteq> [] then (cm_tag metadata, grp)
                    else initializeMetadata L rnd grp)
             else initializeMetadata L rnd grp)
      in case createInviteInternal L nonce mw (grp_id grp') inviteTag options of
           Inl e \<Rightarrow> Inl e
         | Inr res \<Rightarrow> Inr (res, grp'))"

section \<open>middleware/join-request-handler\<close>

datatype JoinRequestResult = Success | BlockSender | SendError | NotJoinRequest

record JoinRequestOutcome =
  jo_result :: JoinRequestResult
  jo_conversationId :: "string option"
  jo_inviteTag :: "string option"
  jo_error :: "InviteJoinError option"
  jo_errorMessage :: "string option"

text \<open>
  The callbacks are optional. \<open>onJoinRequest\<close> answers \<open>Inl msg\<close> when it throws,
  \<open>msg\<close> being the message reported; \<open>conversationExists\<close> answers \<open>None\<close> when it
  rejects, which is not caught. The result lists the errors passed to \<open>onJoinError\<close>.
\<close>

record JoinRequestHandler =
  jr_inboxId :: string
  jr_privateKey :: bytes
  jr_onJoinRequest :: "(string \<Rightarrow> string \<Rightarrow> string \<Rightarrow> string + bool) option"
  jr_onJoinError :: bool
  jr_conversationExists :: "(string \<Rightarrow> bool option) option"

definition outcome :: "JoinRequestResult \<Rightarrow> JoinRequestOutcome" where
  "outcome r =
     \<lparr> jo_result = r, jo_conversationId = None, jo_inviteTag = None, jo_error = None,
       jo_errorMessage = None \<rparr>"

definition onJoinError_call :: "JoinRequestHandler \<Rightarrow> InviteJoinError \<Rightarrow> InviteJoinError list" where
  "onJoinError_call h e = (if jr_onJoinError h then [e] else [])"

definition processMessage ::
  "libs \<Rightarrow> int \<Rightarrow> JoinRequestHandler \<Rightarrow> string \<Rightarrow> string \<Rightarrow>
   error + (JoinRequestOutcome \<times> InviteJoinError list)" where
  "processMessage L now_ms h messageText senderInboxId =
     (if senderInboxId = jr_inboxId h then Inr (outcome NotJoinRequest, [])
      else (case parseInviteSlug L now_ms messageText of
        Inl e \<Rightarrow>
          (if looksLikeInviteSlug messageText
           then Inr ((outcome BlockSender) \<lparr> jo_errorMessage := Some ''Invalid invite format'' \<rparr>, [])
           else Inr (outcome NotJoinRequest, []))
      | Inr parsedInvite \<Rightarrow>
          (let inviteTag = ip_tag (pi_payload parsedInvite) in
           if pi_creatorInboxId parsedInvite \<noteq> jr_inboxId h
           then Inr ((outcome BlockSender)
                       \<lparr> jo_inviteTag := Some inviteTag,
                         jo_errorMessage := Some ''Invite not created by this inbox'' \<rparr>, [])
           else (case verifyInviteWithPrivateKey L (pi_signedInvite parsedInvite)
                        (jr_privateKey h) of
             Inl e \<Rightarrow> Inl e
           | Inr verified \<Rightarrow>
               if \<not> verified
               then Inr ((outcome BlockSender)
                           \<lparr> jo_inviteTag := Some inviteTag,
                             jo_errorMessage := Some ''Invalid signature'' \<rparr>, [])
               else if pi_isExpired parsedInvite
               then (let err = createConversationExpiredError now_ms inviteTag in
                     Inr ((outcome SendError)
                            \<lparr> jo_inviteTag := Some inviteTag, jo_error := Some err,
                              jo_errorMessage := Some ''Invite expired'' \<rparr>,
                          onJoinError_call h err))
               else if pi_isConversationExpired parsedInvite
               then (let err = createConversationExpiredError now_ms inviteTag in
                     Inr ((outcome SendError)
                            \<lparr> jo_inviteTag := Some inviteTag, jo_error := Some err,
                              jo_errorMessage := Some ''Conversation expired'' \<rparr>,
                          onJoinError_call h err))
               else (case decryptInviteConversationId L parsedInvite (jr_privateKey h) of
                 Inl e \<Rightarrow>
                   Inr ((outcome BlockSender)
                          \<lparr> jo_inviteTag := Some inviteTag,
                            jo_errorMessage := Some ''Failed to decrypt conversation ID'' \<rparr>, [])
               | Inr conversationId \<Rightarrow>
                   (case (case jr_conversationExists h of
                            None \<Rightarrow> Some True
                          | Some f \<Rightarrow> f conversationId) of
                      None \<Rightarrow> Inl SubstrateError
                    | Some False \<Rightarrow>
                        (let err = createConversationExpiredError now_ms inviteTag in
                         Inr ((outcome SendError)
                                \<lparr> jo_conversationId := Some conversationId,
                                  jo_inviteTag := Some inviteTag, jo_error := Some err,
                                  jo_errorMessage := Some ''Conversation not found'' \<rparr>,
                              onJoinError_call h err))
                    | Some True \<Rightarrow>
                        (case (case jr_onJoinRequest h of
                                 None \<Rightarrow> Inr True
                               | Some f \<Rightarrow> f senderInboxId conversationId inviteTag) of
                           Inr True \<Rightarrow>
                             Inr ((outcome Success)
                                    \<lparr> jo_conversationId := Some conversationId,
                                      jo_inviteTag := Some inviteTag \<rparr>, [])
                         | failed \<Rightarrow>
                             (let err = createGenericFailureError now_ms inviteTag in
                              Inr ((outcome SendError)
                                     \<lparr> jo_conversationId := Some conversationId,
                                       jo_inviteTag := Some inviteTag, jo_error := Some err,
                                       jo_errorMessage :=
                                         Some (case failed of
                                                 Inl msg \<Rightarrow> msg
                                               | Inr _ \<Rightarrow> ''Failed to add member to conversation'') \<rparr>,
                                   onJoinError_call h err)))))))))"

section \<open>Contracts of the libraries\<close>

text \<open>
  What the theorems assume of the libraries: inflating what was deflated gives the
  input back; HKDF returns the length asked for; with a 32-byte key and a 12-byte
  nonce the cipher encrypts, appends a 16-byte tag, and decrypts its own output under
  the same key, nonce and associated data; and for the private key at hand the curve
  library gives a 65-byte public key, signs every hash with a 64-byte signature and a
  recovery id of at most 3, and recovers that public key from hash and signature.
\<close>

definition zlib_ok :: "libs \<Rightarrow> bool" where
  "zlib_ok L \<longleftrightarrow> (\<forall>x c. pako_deflate L x = Some c \<longrightarrow> pako_inflate L c = Some x)"

definition hkdf_ok :: "libs \<Rightarrow> bool" where
  "hkdf_ok L \<longleftrightarrow> (\<forall>ikm salt info n. length (hkdf_sha256 L ikm salt info n) = n)"

definition aead_ok :: "libs \<Rightarrow> bool" where
  "aead_ok L \<longleftrightarrow>
     (\<forall>key nonce aad pt. length key = 32 \<and> length nonce = 12 \<longrightarrow>
        (\<exists>ct. chacha_encrypt L key nonce aad pt = Some ct \<and> length ct = length pt + 16
              \<and> chacha_decrypt L key nonce aad ct = Some pt))"

definition secp_ok :: "libs \<Rightarrow> bytes \<Rightarrow> bool" where
  "secp_ok L privateKey \<longleftrightarrow>
     (\<exists>pk. secp_getPublicKey L privateKey = Some pk \<and> length pk = 65 \<and>
        (\<forall>h. \<exists>sig recId. secp_sign L h privateKey = Some (sig, recId) \<and> length sig = 64
               \<and> recId \<le> 3 \<and> secp_recover L h sig recId = Some pk))"

section \<open>A small instance of the libraries\<close>

text \<open>
  The theorems below hold for every implementation of the libraries that meets the
  contracts they state. The instance \<open>demo_libs\<close> meets them and serves to run the
  model on concrete inputs. It is no cryptography: a run-length code for zero bytes
  stands for DEFLATE, a checksum for SHA-256, and the signature and the cipher only
  satisfy the equations that relate signing to recovery and encryption to decryption.
\<close>

definition demo_deflate :: "bytes \<Rightarrow> bytes option" where
  "demo_deflate x =
     (if x = replicate (length x) 0 \<and> length x < 256
      then Some [1, of_nat (length x)] else Some (0 # x))"

fun demo_inflate :: "bytes \<Rightarrow> bytes option" where
  "demo_inflate [] = None"
| "demo_inflate (t # r) =
     (if t = 0 then Some r
      else if t = 1 \<and> length r = 1 then Some (replicate (unat (hd r)) 0)
      else None)"

definition demo_sha256 :: "bytes \<Rightarrow> bytes" where
  "demo_sha256 x = replicate 31 0 @ [fold (+) x 0]"

definition pad32 :: "bytes \<Rightarrow> bytes" where
  "pad32 h = take 32 (h @ replicate 32 0)"

definition xor_bytes :: "bytes \<Rightarrow> bytes \<Rightarrow> bytes" where
  "xor_bytes a b = map (\<lambda>(x, y). x XOR y) (zip a b)"

definition demo_getPublicKey :: "bytes \<Rightarrow> bytes option" where
  "demo_getPublicKey k =
     (if length k = 32 \<and> k \<noteq> replicate 32 0 then Some (4 # k @ k) else None)"

definition demo_sign :: "bytes \<Rightarrow> bytes \<Rightarrow> (bytes \<times> nat) option" where
  "demo_sign h k =
     (if length k = 32 \<and> k \<noteq> replicate 32 0 then Some (k @ xor_bytes (pad32 h) k, 0)
      else None)"

definition demo_recover :: "bytes \<Rightarrow> bytes \<Rightarrow> nat \<Rightarrow> bytes option" where
  "demo_recover h sig recId =
     (if length sig = 64 \<and> recId = 0 \<and> drop 32 sig = xor_bytes (pad32 h) (take 32 sig)
      then Some (4 # take 32 sig @ take 32 sig) else None)"

definition demo_pointFromHex :: "bytes \<Rightarrow> bytes option" where
  "demo_pointFromHex p = (if length p = 33 then Some (4 # tl p @ tl p) else None)"

definition demo_hkdf :: "bytes \<Rightarrow> bytes \<Rightarrow> bytes \<Rightarrow> nat \<Rightarrow> bytes" where
  "demo_hkdf ikm salt info len = take len (ikm @ salt @ info @ replicate len 0)"

definition demo_tag :: "bytes \<Rightarrow> bytes \<Rightarrow> bytes \<Rightarrow> bytes" where
  "demo_tag key nonce aad = replicate 15 0 @ [fold (+) (key @ nonce @ aad) 0]"

definition demo_encrypt :: "bytes \<Rightarrow> bytes \<Rightarrow> bytes \<Rightarrow> bytes \<Rightarrow> bytes option" where
  "demo_encrypt key nonce aad pt =
     (if length key = 32 \<and> length nonce = 12
      then Some (map (\<lambda>b. b XOR 0x5A) pt @ demo_tag key nonce aad) else None)"

definition demo_decrypt :: "bytes \<Rightarrow> bytes \<Rightarrow> bytes \<Rightarrow> bytes \<Rightarrow> bytes option" where
  "demo_decrypt key nonce aad ct =
     (if length key = 32 \<and> length nonce = 12 \<and> length ct \<ge> 16
         \<and> drop (length ct - 16) ct = demo_tag key nonce aad
      then Some (map (\<lambda>b. b XOR 0x5A) (take (length ct - 16) ct)) else None)"

definition demo_url_parser :: "string \<Rightarrow> url option" where
  "demo_url_parser s =
     (case split_on CHR ''?'' s of
        [p, q] \<Rightarrow>
          (case split_on CHR ''='' q of
             [k, v] \<Rightarrow> Some \<lparr> url_query = [(k, v)], url_pathname = ''/'' \<rparr>
           | _ \<Rightarrow> Some \<lparr> url_query = [], url_pathname = ''/'' \<rparr>)
      | _ \<Rightarrow> Some \<lparr> url_query = [], url_pathname = ''/'' \<rparr>)"

definition demo_libs :: libs where
  "demo_libs =
     \<lparr> pako_deflate = demo_deflate, pako_inflate = demo_inflate, sha256 = demo_sha256,
       secp_sign = demo_sign, secp_recover = demo_recover,
       secp_getPublicKey = demo_getPublicKey, secp_pointFromHex = demo_pointFromHex,
       hkdf_sha256 = demo_hkdf, chacha_encrypt = demo_encrypt,
       chacha_decrypt = demo_decrypt, url_parser = demo_url_parser \<rparr>"

section \<open>Facts about compression\<close>

lemma utf8_decode_encode: "utf8_decode (utf8_encode s) = s"
  by (induction s) (simp_all add: utf8_encode_def utf8_decode_def unat_of_nat)

lemma decompress_unmarked:
  "x = [] \<or> hd x \<noteq> COMPRESSION_MARKER \<Longrightarrow> decompress L x = Inr x"
  by (auto simp: decompress_def)

lemma decompress_marked:
  "pako_inflate L c = Some x \<Longrightarrow> length x \<le> MAX_DECOMPRESSED_SIZE \<Longrightarrow>
   decompress L (COMPRESSION_MARKER # c) = Inr x"
  by (simp add: decompress_def)

lemma compressIfSmaller_cases:
  "compressIfSmaller L x = x \<or>
   (\<exists>c. pako_deflate L x = Some c \<and> length c + 1 < length x \<and>
        compressIfSmaller L x = COMPRESSION_MARKER # c)"
  by (auto simp: compressIfSmaller_def split: option.splits)

lemma decompress_compressIfSmaller:
  assumes len: "length x \<le> MAX_DECOMPRESSED_SIZE"
    and zlib: "\<And>c. pako_deflate L x = Some c \<Longrightarrow> pako_inflate L c = Some x"
    and unamb: "compressIfSmaller L x \<noteq> x \<or> x = [] \<or> hd x \<noteq> COMPRESSION_MARKER"
  shows "decompress L (compressIfSmaller L x) = Inr x"
proof (cases "compressIfSmaller L x = x")
  case True
  with unamb show ?thesis by (simp add: decompress_unmarked)
next
  case False
  with compressIfSmaller_cases [of L x] obtain c
    where c: "pako_deflate L x = Some c" "compressIfSmaller L x = COMPRESSION_MARKER # c"
    by auto
  from zlib [OF c(1)] len show ?thesis
    unfolding c(2) by (rule decompress_marked)
qed


section \<open>Facts about the protobuf writer and reader\<close>

lemma unat_of_nat_byte: "n < 256 \<Longrightarrow> unat (of_nat n :: byte) = n"
  by (simp add: unat_of_nat)

lemma rd32_varint:
  "k \<le> 4 \<Longrightarrow> n < 2 ^ (32 - 7 * k) \<Longrightarrow>
   rd32 k acc (varint_bytes n @ rest) = Some (acc + n * 2 ^ (7 * k), rest)"
proof (induction n arbitrary: k acc rule: varint_bytes.induct)
  case (1 val)
  show ?case
  proof (cases "val > 127")
    case False
    then have vb: "varint_bytes val = [of_nat val]" by (simp add: varint_bytes.simps)
    from False have u: "unat (of_nat val :: byte) = val" by (simp add: unat_of_nat_byte)
    have "k = 4 \<Longrightarrow> val < 16" using "1.prems" by simp
    then show ?thesis using False by (simp add: vb u)
  next
    case True
    define b :: byte where "b = of_nat (val mod 128 + 128)"
    from True have vb: "varint_bytes val = b # varint_bytes (val div 128)"
      unfolding b_def by (subst varint_bytes.simps) simp
    have u: "unat b = val mod 128 + 128"
      unfolding b_def by (rule unat_of_nat_byte) simp
    have k3: "k \<le> 3"
    proof (rule ccontr)
      assume "\<not> k \<le> 3"
      with "1.prems" have "k = 4" by simp
      with "1.prems" True show False by simp
    qed
    have p: "(2::nat) ^ (32 - 7 * k) = 128 * 2 ^ (32 - 7 * Suc k)"
    proof -
      have "32 - 7 * k = Suc (Suc (Suc (Suc (Suc (Suc (Suc (32 - 7 * Suc k)))))))"
        using k3 by simp
      then show ?thesis by (simp only: power_Suc)
    qed
    have d: "val div 128 < 2 ^ (32 - 7 * Suc k)"
      using "1.prems"(2) unfolding p by (simp add: less_mult_imp_div_less mult.commute)
    have q: "(2::nat) ^ (7 * Suc k) = 128 * 2 ^ (7 * k)"
      by (simp add: power_add)
    have ih: "rd32 (Suc k) (acc + val mod 128 * 2 ^ (7 * k)) (varint_bytes (val div 128) @ rest)
       = Some (acc + val mod 128 * 2 ^ (7 * k) + val div 128 * 2 ^ (7 * Suc k), rest)"
      using "1.IH" [OF True, of "Suc k"] k3 d by simp
    have e: "val mod 128 * 2 ^ (7 * k) + val div 128 * 2 ^ (7 * Suc k) = val * 2 ^ (7 * k)"
    proof -
      have "val * 2 ^ (7 * k) = (val mod 128 + val div 128 * 128) * 2 ^ (7 * k)"
        by (simp only: mod_div_mult_eq)
      also have "\<dots> = val mod 128 * 2 ^ (7 * k) + val div 128 * (128 * 2 ^ (7 * k))"
        by (simp only: distrib_right mult.assoc)
      finally show ?thesis unfolding q by simp
    qed
    from k3 have k4: "k \<noteq> 4" by simp
    show ?thesis
      using ih e by (simp add: vb u k4 Let_def add.assoc)
  qed
qed

lemma read_write_uint32:
  "n < 2 ^ 32 \<Longrightarrow> read_uint32 (write_uint32 n @ rest) = Some (n, rest)"
  using rd32_varint [of 0 n 0 rest] by (simp add: read_uint32_def write_uint32_def)

lemma varint_bytes_nonempty: "varint_bytes n \<noteq> []"
  by (subst varint_bytes.simps) simp

lemma write_uint32_nonempty: "write_uint32 n \<noteq> []"
  by (simp add: write_uint32_def varint_bytes_nonempty)

lemma read_bytes_write:
  "length v < 2 ^ 32 \<Longrightarrow> read_bytes (write_uint32 (length v) @ v @ rest) = Some (v, rest)"
  by (simp add: read_bytes_def read_write_uint32)


lemma length_le_bytes: "length (le_bytes n u) = n"
  by (induction n arbitrary: u) simp_all

lemma le_nat_Cons: "le_nat (b # bs) = unat b + 256 * le_nat bs"
  by (simp add: le_nat_def)

lemma le_nat_le_bytes: "le_nat (le_bytes n u) = u mod 256 ^ n"
proof (induction n arbitrary: u)
  case 0
  show ?case by (simp add: le_nat_def)
next
  case (Suc n)
  have "u mod (256 * 256 ^ n) = 256 * (u div 256 mod 256 ^ n) + u mod 256"
    by (rule mod_mult2_eq)
  then show ?case
    by (simp add: le_nat_Cons Suc.IH unat_of_nat_byte)
qed

lemma read_sfixed64_le_bytes:
  "read_sfixed64 (le_bytes 8 u @ rest) = Some (to_signed64 (u mod 2 ^ 64), rest)"
proof -
  have "le_nat (le_bytes 8 u) = u mod 256 ^ 8" by (rule le_nat_le_bytes)
  then show ?thesis
    by (simp add: read_sfixed64_def length_le_bytes)
qed

lemma wrap64_id:
  assumes "- (2 ^ 63) \<le> v" "v < 2 ^ 63"
  shows "wrap64 v = v"
proof (cases "v < 0")
  case True
  from True assms have "(v + 2 ^ 64) mod 2 ^ 64 = v + 2 ^ 64"
    by (intro mod_pos_pos_trivial) auto
  then have m: "v mod 2 ^ 64 = v + 2 ^ 64" by simp
  have "to_signed64 (nat (v + 2 ^ 64)) = v"
    using True assms by (simp add: to_signed64_def)
  then show ?thesis unfolding wrap64_def m .
next
  case False
  from False assms have m: "v mod 2 ^ 64 = v" by simp
  have "to_signed64 (nat v) = v"
    using False assms by (simp add: to_signed64_def)
  then show ?thesis unfolding wrap64_def m .
qed

lemma tag_div: "wt < 8 \<Longrightarrow> (f * 8 + wt) div 8 = (f::nat)" by simp
lemma tag_mod: "wt < 8 \<Longrightarrow> (f * 8 + wt) mod 8 = (wt::nat)" by simp

lemma decode_fields_done:
  "length bs \<le> stop \<Longrightarrow> decode_fields sch stop bs acc = Some (acc, bs)"
  by (subst decode_fields.simps) simp

lemma read_enc_tag:
  assumes "f < 2 ^ 28" "wt < 8"
  obtains t where "read_uint32 (enc_tag f wt @ rest) = Some (t, rest)" "t div 8 = f" "t mod 8 = wt"
proof -
  have "f * 8 + wt < 2 ^ 32" using assms by simp
  then have "read_uint32 (enc_tag f wt @ rest) = Some (f * 8 + wt, rest)"
    unfolding enc_tag_def by (rule read_write_uint32)
  moreover have "(f * 8 + wt) div 8 = f" "(f * 8 + wt) mod 8 = wt" using assms(2) by simp_all
  ultimately show ?thesis by (rule that)
qed

lemma enc_tag_nonempty: "enc_tag f wt \<noteq> []"
  by (simp add: enc_tag_def write_uint32_nonempty)

lemma length_enc_tag_pos: "0 < length (enc_tag f wt)"
  using enc_tag_nonempty [of f wt] by simp

lemma decode_fields_known:
  assumes "read_uint32 bs = Some (t, r)" "sch (t div 8) = Some k"
    "read_value k r = Some (v, r')" "\<not> length bs \<le> stop"
  shows "decode_fields sch stop bs acc = decode_fields sch stop r' (acc @ [(t div 8, v)])"
  by (subst decode_fields.simps) (simp add: assms)

lemma decode_fields_bytes:
  assumes "sch f = Some KBytes" "f < 2 ^ 28" "length v < 2 ^ 32" "stop \<le> length rest"
  shows "decode_fields sch stop (enc_bytes_field f v @ rest) acc
         = decode_fields sch stop rest (acc @ [(f, WBytes v)])"
proof -
  let ?r = "write_uint32 (length v) @ v @ rest"
  obtain t where t: "read_uint32 (enc_tag f 2 @ ?r) = Some (t, ?r)" "t div 8 = f"
    using read_enc_tag [of f 2] assms(2) by auto
  have e: "enc_bytes_field f v @ rest = enc_tag f 2 @ ?r"
    by (simp add: enc_bytes_field_def)
  have n: "\<not> length (enc_tag f 2 @ ?r) \<le> stop"
    using assms(4) length_enc_tag_pos [of f 2] by (simp del: length_greater_0_conv)
  have v: "read_value KBytes ?r = Some (WBytes v, rest)"
    by (simp add: read_value_def read_bytes_write [OF assms(3)])
  show ?thesis
    unfolding e using decode_fields_known [OF t(1) _ v n, of sch acc] assms(1) t(2) by simp
qed

lemma decode_fields_string:
  assumes "sch f = Some KString" "f < 2 ^ 28" "length v < 2 ^ 32" "stop \<le> length rest"
  shows "decode_fields sch stop (enc_string_field f v @ rest) acc
         = decode_fields sch stop rest (acc @ [(f, WString v)])"
proof -
  let ?r = "write_uint32 (length (utf8_encode v)) @ utf8_encode v @ rest"
  have l: "length (utf8_encode v) < 2 ^ 32" using assms(3) by (simp add: utf8_encode_def)
  obtain t where t: "read_uint32 (enc_tag f 2 @ ?r) = Some (t, ?r)" "t div 8 = f"
    using read_enc_tag [of f 2] assms(2) by auto
  have e: "enc_string_field f v @ rest = enc_tag f 2 @ ?r"
    by (simp add: enc_string_field_def enc_bytes_field_def)
  have n: "\<not> length (enc_tag f 2 @ ?r) \<le> stop"
    using assms(4) length_enc_tag_pos [of f 2] by (simp del: length_greater_0_conv)
  have v: "read_value KString ?r = Some (WString v, rest)"
    by (simp add: read_value_def read_bytes_write [OF l] utf8_decode_encode)
  show ?thesis
    unfolding e using decode_fields_known [OF t(1) _ v n, of sch acc] assms(1) t(2) by simp
qed

lemma decode_fields_sfixed64:
  assumes "sch f = Some KSFixed64" "f < 2 ^ 28" "stop \<le> length rest"
  shows "decode_fields sch stop (enc_sfixed64_field f v @ rest) acc
         = decode_fields sch stop rest (acc @ [(f, WLong (wrap64 v))])"
proof -
  let ?r = "le_bytes 8 (nat (v mod 2 ^ 64)) @ rest"
  obtain t where t: "read_uint32 (enc_tag f 1 @ ?r) = Some (t, ?r)" "t div 8 = f"
    using read_enc_tag [of f 1] assms(2) by auto
  have e: "enc_sfixed64_field f v @ rest = enc_tag f 1 @ ?r"
    by (simp add: enc_sfixed64_field_def)
  have n: "\<not> length (enc_tag f 1 @ ?r) \<le> stop"
    using assms(3) by (simp add: length_le_bytes)
  have m: "nat (v mod 2 ^ 64) mod 2 ^ 64 = nat (v mod 2 ^ 64)"
    by (simp add: nat_less_iff)
  have v: "read_value KSFixed64 ?r = Some (WLong (wrap64 v), rest)"
    unfolding read_value_def wrap64_def by (simp only: read_sfixed64_le_bytes m) simp
  show ?thesis
    unfolding e using decode_fields_known [OF t(1) _ v n, of sch acc] assms(1) t(2) by simp
qed

lemma decode_fields_bool:
  assumes "sch f = Some KBool" "f < 2 ^ 28" "stop \<le> length rest"
  shows "decode_fields sch stop (enc_bool_field f v @ rest) acc
         = decode_fields sch stop rest (acc @ [(f, WBool v)])"
proof -
  let ?r = "(if v then 1 else 0) # rest"
  obtain t where t: "read_uint32 (enc_tag f 0 @ ?r) = Some (t, ?r)" "t div 8 = f"
    using read_enc_tag [of f 0] assms(2) by auto
  have e: "enc_bool_field f v @ rest = enc_tag f 0 @ ?r"
    by (simp add: enc_bool_field_def)
  have n: "\<not> length (enc_tag f 0 @ ?r) \<le> stop"
    using assms(3) by simp
  have v: "read_value KBool ?r = Some (WBool v, rest)"
    by (simp add: read_value_def read_uint32_def)
  show ?thesis
    unfolding e using decode_fields_known [OF t(1) _ v n, of sch acc] assms(1) t(2) by simp
qed


section \<open>Decoding what proto/invite encodes\<close>

text \<open>
  \<open>opt_assign\<close> lists the assignment an optional field causes in the decoder;
  \<open>read_back_string\<close> and \<open>read_back_long\<close> say what \<open>decodeInvitePayload\<close> returns for
  an optional field that \<open>encodeInvitePayload\<close> was given.
\<close>

definition opt_assign :: "nat \<Rightarrow> ('a \<Rightarrow> wval) \<Rightarrow> 'a option \<Rightarrow> (nat \<times> wval) list" where
  "opt_assign f w v = (case v of None \<Rightarrow> [] | Some x \<Rightarrow> [(f, w x)])"

lemma decode_fields_opt_string:
  assumes "sch f = Some KString" "f < 2 ^ 28" "\<And>s. v = Some s \<Longrightarrow> length s < 2 ^ 32"
    "stop \<le> length rest"
  shows "decode_fields sch stop (enc_opt (enc_string_field f) v @ rest) acc
         = decode_fields sch stop rest (acc @ opt_assign f WString v)"
  using assms by (cases v) (simp_all add: enc_opt_def opt_assign_def decode_fields_string)

lemma decode_fields_opt_bytes:
  assumes "sch f = Some KBytes" "f < 2 ^ 28" "\<And>s. v = Some s \<Longrightarrow> length s < 2 ^ 32"
    "stop \<le> length rest"
  shows "decode_fields sch stop (enc_opt (enc_bytes_field f) v @ rest) acc
         = decode_fields sch stop rest (acc @ opt_assign f WBytes v)"
  using assms by (cases v) (simp_all add: enc_opt_def opt_assign_def decode_fields_bytes)

lemma decode_fields_opt_sfixed64:
  assumes "sch f = Some KSFixed64" "f < 2 ^ 28" "stop \<le> length rest"
  shows "decode_fields sch stop (enc_opt (enc_sfixed64_field f) v @ rest) acc
         = decode_fields sch stop rest (acc @ opt_assign f (\<lambda>x. WLong (wrap64 x)) v)"
  using assms by (cases v) (simp_all add: enc_opt_def opt_assign_def decode_fields_sfixed64)

lemmas decode_fields_last =
  decode_fields_bytes [where rest = "[]", simplified]
  decode_fields_string [where rest = "[]", simplified]
  decode_fields_bool [where rest = "[]", simplified]
  decode_fields_opt_bytes [where rest = "[]", simplified]
  decode_fields_opt_string [where rest = "[]", simplified]

lemma decodeSignedInvite_encode:
  assumes "length (si_payload s) < 2 ^ 32" "length (si_signature s) < 2 ^ 32"
  shows "decodeSignedInvite (encodeSignedInvite s) = Inr s"
  using assms
  by (simp add: decodeSignedInvite_def encodeSignedInvite_def SignedInvite_schema_def
      decode_fields_bytes decode_fields_last decode_fields_done
      msg_bytes_def field_last_def)

definition read_back_string :: "string option \<Rightarrow> string option" where
  "read_back_string v = (case v of None \<Rightarrow> None | Some s \<Rightarrow> truthy_string s)"

definition read_back_long :: "int option \<Rightarrow> int option" where
  "read_back_long v = (case truthy_bigint v of None \<Rightarrow> None | Some n \<Rightarrow> nonzero_long (wrap64 n))"

lemma decodeInvitePayload_encode:
  assumes "length (ip_conversationToken p) < 2 ^ 32" "length (ip_creatorInboxId p) < 2 ^ 32"
    "length (ip_tag p) < 2 ^ 32"
    "\<And>s. ip_name p = Some s \<Longrightarrow> length s < 2 ^ 32"
    "\<And>s. ip_description p = Some s \<Longrightarrow> length s < 2 ^ 32"
    "\<And>s. ip_imageURL p = Some s \<Longrightarrow> length s < 2 ^ 32"
  shows "decodeInvitePayload (encodeInvitePayload p) =
    Inr \<lparr> ip_conversationToken = ip_conversationToken p,
          ip_creatorInboxId = ip_creatorInboxId p,
          ip_tag = ip_tag p,
          ip_name = read_back_string (ip_name p),
          ip_description = read_back_string (ip_description p),
          ip_imageURL = read_back_string (ip_imageURL p),
          ip_conversationExpiresAtUnix = read_back_long (ip_conversationExpiresAtUnix p),
          ip_expiresAtUnix = read_back_long (ip_expiresAtUnix p),
          ip_expiresAfterUse = ip_expiresAfterUse p \<rparr>"
proof -
  have d: "decode_fields InvitePayload_schema 0 (encodeInvitePayload p) [] =
    Some ([(1, WBytes (ip_conversationToken p)), (2, WBytes (ip_creatorInboxId p)),
           (3, WString (ip_tag p))]
          @ opt_assign 4 WString (ip_name p)
          @ opt_assign 5 WString (ip_description p)
          @ opt_assign 6 WString (ip_imageURL p)
          @ opt_assign 7 (\<lambda>x. WLong (wrap64 x)) (truthy_bigint (ip_conversationExpiresAtUnix p))
          @ opt_assign 8 (\<lambda>x. WLong (wrap64 x)) (truthy_bigint (ip_expiresAtUnix p))
          @ [(9, WBool (ip_expiresAfterUse p))], [])"
    using assms
    by (simp add: encodeInvitePayload_def InvitePayload_schema_def
        decode_fields_bytes decode_fields_string decode_fields_opt_string
        decode_fields_opt_sfixed64 decode_fields_last decode_fields_done)
  show ?thesis
    unfolding decodeInvitePayload_def d
    by (cases "ip_name p"; cases "ip_description p"; cases "ip_imageURL p";
        cases "truthy_bigint (ip_conversationExpiresAtUnix p)";
        cases "truthy_bigint (ip_expiresAtUnix p)")
       (simp_all add: opt_assign_def msg_bytes_def msg_string_def msg_long_def msg_bool_def
          field_last_def read_back_string_def read_back_long_def truthy_string_def
          nonzero_long_def)
qed


section \<open>Decoding what proto/conversation-metadata encodes\<close>

text \<open>
  \<open>read_back_metadata m\<close> is what \<open>decodeConversationMetadata\<close> returns for the
  encoding of \<open>m\<close>: an unset name or image is read back as the empty string, an unset
  key as the empty array, an unset or zero expiry as zero.
\<close>

definition profile_assignments :: "ConversationProfile \<Rightarrow> (nat \<times> wval) list" where
  "profile_assignments p =
     [(1, WBytes (cp_inboxId p))] @ opt_assign 2 WString (cp_name p)
     @ opt_assign 3 WString (cp_image p)"

definition profile_fits :: "ConversationProfile \<Rightarrow> bool" where
  "profile_fits p \<longleftrightarrow>
     length (cp_inboxId p) < 2 ^ 32 \<and>
     (\<forall>s. cp_name p = Some s \<longrightarrow> length s < 2 ^ 32) \<and>
     (\<forall>s. cp_image p = Some s \<longrightarrow> length s < 2 ^ 32) \<and>
     length (encodeConversationProfile p) < 2 ^ 32"

lemma decode_profile:
  assumes "profile_fits p"
  shows "decode_fields ConversationProfile_schema (length rest)
           (encodeConversationProfile p @ rest) [] = Some (profile_assignments p, rest)"
  using assms
  by (simp add: profile_fits_def encodeConversationProfile_def ConversationProfile_schema_def
      profile_assignments_def decode_fields_bytes decode_fields_opt_string decode_fields_done)

lemma decode_metadata_fields_done: "decode_metadata_fields [] acc = Some acc"
  by (subst decode_metadata_fields.simps) simp

lemma decode_metadata_fields_known:
  assumes "read_uint32 bs = Some (t, r)" "t div 8 \<noteq> 2"
    "ConversationCustomMetadata_schema (t div 8) = Some k"
    "read_value k r = Some (v, r')"
  shows "decode_metadata_fields bs acc = decode_metadata_fields r' (acc @ [(t div 8, v)])"
proof -
  from assms(1) have "bs \<noteq> []" by (auto simp: read_uint32_def)
  then show ?thesis
    by (subst decode_metadata_fields.simps) (simp add: assms)
qed

lemma decode_metadata_fields_nested:
  assumes "read_uint32 bs = Some (t, r)" "t div 8 = 2" "read_uint32 r = Some (l, r1)"
    "l \<le> length r1"
    "decode_fields ConversationProfile_schema (length r1 - l) r1 [] = Some (pa, r2)"
  shows "decode_metadata_fields bs acc = decode_metadata_fields r2 (acc @ [(2, WMessage pa)])"
proof -
  from assms(1) have "bs \<noteq> []" by (auto simp: read_uint32_def)
  moreover from assms(4) have "\<not> length r1 < l" by simp
  ultimately show ?thesis
    by (subst decode_metadata_fields.simps) (simp add: assms(1,2,3,5))
qed

lemma decode_metadata_profile:
  assumes "profile_fits p"
  shows "decode_metadata_fields (enc_bytes_field 2 (encodeConversationProfile p) @ rest) acc
         = decode_metadata_fields rest (acc @ [(2, WMessage (profile_assignments p))])"
proof -
  let ?e = "encodeConversationProfile p"
  let ?r = "write_uint32 (length ?e) @ ?e @ rest"
  obtain t where t: "read_uint32 (enc_tag 2 2 @ ?r) = Some (t, ?r)" "t div 8 = 2"
    using read_enc_tag [of 2 2] by auto
  have e: "enc_bytes_field 2 ?e @ rest = enc_tag 2 2 @ ?r"
    by (simp add: enc_bytes_field_def)
  have l: "read_uint32 ?r = Some (length ?e, ?e @ rest)"
    using assms by (simp add: profile_fits_def read_write_uint32)
  have d: "decode_fields ConversationProfile_schema (length (?e @ rest) - length ?e)
             (?e @ rest) [] = Some (profile_assignments p, rest)"
    using decode_profile [OF assms, of rest] by simp
  show ?thesis
    unfolding e by (rule decode_metadata_fields_nested [OF t l _ d]) simp
qed

lemma decode_metadata_profiles:
  assumes "\<forall>p \<in> set ps. profile_fits p"
  shows "decode_metadata_fields
           (concat (map (\<lambda>p. enc_bytes_field 2 (encodeConversationProfile p)) ps) @ rest) acc
         = decode_metadata_fields rest
             (acc @ map (\<lambda>p. (2, WMessage (profile_assignments p))) ps)"
  using assms
proof (induction ps arbitrary: acc)
  case Nil
  show ?case by simp
next
  case (Cons p ps)
  then show ?case by (simp add: decode_metadata_profile)
qed


definition read_back_profile :: "ConversationProfile \<Rightarrow> ConversationProfile" where
  "read_back_profile p =
     \<lparr> cp_inboxId = cp_inboxId p,
       cp_name = Some (case cp_name p of None \<Rightarrow> [] | Some s \<Rightarrow> s),
       cp_image = Some (case cp_image p of None \<Rightarrow> [] | Some s \<Rightarrow> s) \<rparr>"

definition read_back_metadata :: "ConversationCustomMetadata \<Rightarrow> ConversationCustomMetadata" where
  "read_back_metadata m =
     \<lparr> cm_tag = cm_tag m,
       cm_profiles = map read_back_profile (cm_profiles m),
       cm_expiresAtUnix =
         Some (case truthy_bigint (cm_expiresAtUnix m) of None \<Rightarrow> 0 | Some v \<Rightarrow> wrap64 v),
       cm_imageEncryptionKey =
         Some (case cm_imageEncryptionKey m of None \<Rightarrow> [] | Some k \<Rightarrow> k) \<rparr>"

definition metadata_fits :: "ConversationCustomMetadata \<Rightarrow> bool" where
  "metadata_fits m \<longleftrightarrow>
     length (cm_tag m) < 2 ^ 32 \<and>
     (\<forall>p \<in> set (cm_profiles m). profile_fits p) \<and>
     (\<forall>k. cm_imageEncryptionKey m = Some k \<longrightarrow> length k < 2 ^ 32)"

lemma decodeConversationProfile_assignments:
  "decodeConversationProfile (profile_assignments p) = read_back_profile p"
  by (cases "cp_name p"; cases "cp_image p")
     (simp_all add: decodeConversationProfile_def profile_assignments_def read_back_profile_def
        opt_assign_def msg_bytes_def msg_string_def field_last_def)

lemma decode_metadata_string:
  assumes "f = 1" "length v < 2 ^ 32"
  shows "decode_metadata_fields (enc_string_field f v @ rest) acc
         = decode_metadata_fields rest (acc @ [(f, WString v)])"
proof -
  let ?r = "write_uint32 (length (utf8_encode v)) @ utf8_encode v @ rest"
  have l: "length (utf8_encode v) < 2 ^ 32" using assms(2) by (simp add: utf8_encode_def)
  obtain t where t: "read_uint32 (enc_tag f 2 @ ?r) = Some (t, ?r)" "t div 8 = f"
    using read_enc_tag [of f 2] assms(1) by auto
  have e: "enc_string_field f v @ rest = enc_tag f 2 @ ?r"
    by (simp add: enc_string_field_def enc_bytes_field_def)
  have v: "read_value KString ?r = Some (WString v, rest)"
    by (simp add: read_value_def read_bytes_write [OF l] utf8_decode_encode)
  have k: "ConversationCustomMetadata_schema (t div 8) = Some KString"
    by (simp add: t assms ConversationCustomMetadata_schema_def)
  show ?thesis
    unfolding e using decode_metadata_fields_known [OF t(1) _ k v, of acc] t(2) assms(1)
    by simp
qed

lemma decode_metadata_sfixed64:
  "decode_metadata_fields (enc_sfixed64_field 3 v @ rest) acc
   = decode_metadata_fields rest (acc @ [(3, WLong (wrap64 v))])"
proof -
  define f :: nat where "f = 3"
  note assms = f_def
  let ?r = "le_bytes 8 (nat (v mod 2 ^ 64)) @ rest"
  obtain t where t: "read_uint32 (enc_tag f 1 @ ?r) = Some (t, ?r)" "t div 8 = f"
    using read_enc_tag [of f 1] assms(1) by auto
  have e: "enc_sfixed64_field f v @ rest = enc_tag f 1 @ ?r"
    by (simp add: enc_sfixed64_field_def)
  have m: "nat (v mod 2 ^ 64) mod 2 ^ 64 = nat (v mod 2 ^ 64)"
    by (simp add: nat_less_iff)
  have v: "read_value KSFixed64 ?r = Some (WLong (wrap64 v), rest)"
    unfolding read_value_def wrap64_def by (simp only: read_sfixed64_le_bytes m) simp
  have k: "ConversationCustomMetadata_schema (t div 8) = Some KSFixed64"
    by (simp add: t assms ConversationCustomMetadata_schema_def)
  have "decode_metadata_fields (enc_sfixed64_field f v @ rest) acc
        = decode_metadata_fields rest (acc @ [(f, WLong (wrap64 v))])"
    unfolding e using decode_metadata_fields_known [OF t(1) _ k v, of acc] t(2) assms(1)
    by simp
  then show ?thesis unfolding f_def .
qed

lemma decode_metadata_bytes:
  assumes "length v < 2 ^ 32"
  shows "decode_metadata_fields (enc_bytes_field 4 v @ rest) acc
         = decode_metadata_fields rest (acc @ [(4, WBytes v)])"
proof -
  define f :: nat where "f = 4"
  note assms = f_def assms
  let ?r = "write_uint32 (length v) @ v @ rest"
  obtain t where t: "read_uint32 (enc_tag f 2 @ ?r) = Some (t, ?r)" "t div 8 = f"
    using read_enc_tag [of f 2] assms(1) by auto
  have e: "enc_bytes_field f v @ rest = enc_tag f 2 @ ?r"
    by (simp add: enc_bytes_field_def)
  have v: "read_value KBytes ?r = Some (WBytes v, rest)"
    by (simp add: read_value_def read_bytes_write [OF assms(2)])
  have k: "ConversationCustomMetadata_schema (t div 8) = Some KBytes"
    by (simp add: t assms ConversationCustomMetadata_schema_def)
  have "decode_metadata_fields (enc_bytes_field f v @ rest) acc
        = decode_metadata_fields rest (acc @ [(f, WBytes v)])"
    unfolding e using decode_metadata_fields_known [OF t(1) _ k v, of acc] t(2) assms(1)
    by simp
  then show ?thesis unfolding f_def .
qed

lemma field_last_Nil: "field_last f [] = None"
  by (simp add: field_last_def)

lemma field_last_append:
  "field_last f (xs @ ys) =
     (case field_last f ys of None \<Rightarrow> field_last f xs | Some v \<Rightarrow> Some v)"
  by (simp add: field_last_def map_add_def split: option.splits)

lemma field_last_Cons:
  "field_last f ((g, v) # xs) =
     (case field_last f xs of None \<Rightarrow> if f = g then Some v else None | Some w \<Rightarrow> Some w)"
  using field_last_append [of f "[(g, v)]" xs]
  by (simp add: field_last_def split: option.splits)

lemma field_last_profiles:
  "f \<noteq> 2 \<Longrightarrow> field_last f (map (\<lambda>p. (2, h p)) ps) = None"
  by (simp add: field_last_def map_of_eq_None_iff image_iff)

lemmas field_last_simps = field_last_Nil field_last_append field_last_Cons field_last_profiles

lemma msg_repeated_append: "msg_repeated (xs @ ys) f = msg_repeated xs f @ msg_repeated ys f"
  by (simp add: msg_repeated_def)

lemma msg_repeated_profiles:
  "msg_repeated (map (\<lambda>p. (2, WMessage (g p))) ps) 2 = map g ps"
  by (induction ps) (simp_all add: msg_repeated_def)

lemma decode_metadata_opt_sfixed64:
  "decode_metadata_fields (enc_opt (enc_sfixed64_field 3) v @ rest) acc
   = decode_metadata_fields rest (acc @ opt_assign 3 (\<lambda>x. WLong (wrap64 x)) v)"
  by (cases v) (simp_all add: enc_opt_def opt_assign_def decode_metadata_sfixed64)

lemma decode_metadata_opt_bytes_last:
  assumes "\<And>k. v = Some k \<Longrightarrow> length k < 2 ^ 32"
  shows "decode_metadata_fields (enc_opt (enc_bytes_field 4) v) acc
         = Some (acc @ opt_assign 4 WBytes v)"
proof (cases v)
  case None
  then show ?thesis by (simp add: enc_opt_def opt_assign_def decode_metadata_fields_done)
next
  case (Some k)
  from assms [OF Some] have "decode_metadata_fields (enc_bytes_field 4 k @ []) acc
      = decode_metadata_fields [] (acc @ [(4, WBytes k)])"
    by (rule decode_metadata_bytes)
  then show ?thesis
    by (simp add: Some enc_opt_def opt_assign_def decode_metadata_fields_done)
qed

lemma decode_metadata_assignments:
  assumes "metadata_fits m"
  shows "decode_metadata_fields (encodeConversationMetadata m) [] =
     Some ([(1, WString (cm_tag m))]
           @ map (\<lambda>p. (2, WMessage (profile_assignments p))) (cm_profiles m)
           @ opt_assign 3 (\<lambda>x. WLong (wrap64 x)) (truthy_bigint (cm_expiresAtUnix m))
           @ opt_assign 4 WBytes (cm_imageEncryptionKey m))"
proof -
  have p: "\<forall>p \<in> set (cm_profiles m). profile_fits p"
    using assms by (simp add: metadata_fits_def)
  have t: "length (cm_tag m) < 2 ^ 32" using assms by (simp add: metadata_fits_def)
  have k: "\<And>k. cm_imageEncryptionKey m = Some k \<Longrightarrow> length k < 2 ^ 32"
    using assms by (simp add: metadata_fits_def)
  show ?thesis
    unfolding encodeConversationMetadata_def
    by (simp only: decode_metadata_string [OF refl t] decode_metadata_profiles [OF p]
        decode_metadata_opt_sfixed64 decode_metadata_opt_bytes_last [OF k] append_Nil
        append_assoc)
qed

lemma decodeConversationMetadata_encode:
  assumes "metadata_fits m"
  shows "decodeConversationMetadata (encodeConversationMetadata m) = Inr (read_back_metadata m)"
  unfolding decodeConversationMetadata_def decode_metadata_assignments [OF assms]
  by (cases "truthy_bigint (cm_expiresAtUnix m)"; cases "cm_imageEncryptionKey m")
     (simp_all add: read_back_metadata_def opt_assign_def msg_string_def msg_long_def
        msg_bytes_def field_last_simps msg_repeated_append msg_repeated_profiles
        msg_repeated_def decodeConversationProfile_assignments comp_def)


section \<open>Facts about utils/base64url\<close>

text \<open>
  \<open>sextets_of\<close> gives the 6-bit values of a byte string, \<open>url_char\<close> the character
  of the URL-safe alphabet for such a value.
\<close>

fun sextets_of :: "bytes \<Rightarrow> nat list" where
  "sextets_of [] = []"
| "sextets_of [a] = [unat a div 4, unat a mod 4 * 16]"
| "sextets_of [a, b] = [unat a div 4, unat a mod 4 * 16 + unat b div 16, unat b mod 16 * 4]"
| "sextets_of (a # b # c # r) =
     [unat a div 4, unat a mod 4 * 16 + unat b div 16, unat b mod 16 * 4 + unat c div 64,
      unat c mod 64] @ sextets_of r"

lemma unat_byte_less: "unat (a :: byte) < 256"
  using unsigned_less [of a, where 'a = nat] by simp

lemma sextets_of_less: "n \<in> set (sextets_of d) \<Longrightarrow> n < 64"
proof (induction d arbitrary: n rule: sextets_of.induct)
  case 1
  then show ?case by simp
next
  case (2 a)
  with unat_byte_less [of a] show ?case by auto
next
  case (3 a b)
  with unat_byte_less [of a] unat_byte_less [of b] show ?case by auto
next
  case (4 a b c r)
  with unat_byte_less [of a] unat_byte_less [of b] unat_byte_less [of c] show ?case by auto
qed

lemma b64_encode_sextets:
  "b64_encode d = map b64_char (sextets_of d)
                  @ replicate ((3 - length d mod 3) mod 3) CHR ''=''"
proof (induction d rule: sextets_of.induct)
  case (4 a b c r)
  have "(3 - length (a # b # c # r) mod 3) mod 3 = (3 - length r mod 3) mod 3"
    by (simp add: mod_Suc)
  with 4 show ?case by simp
next
  case (2 a)
  have "replicate 2 CHR ''='' = ''==''" by (simp add: numeral_2_eq_2)
  then show ?case by simp
next
  case (3 a b)
  show ?case by simp
qed simp

lemma nat_group1: "a < 256 \<Longrightarrow> a div 4 * 4 + a mod 4 * 16 div 16 = (a::nat)"
  by simp

lemma nat_group2:
  "a < 256 \<Longrightarrow> b < 256 \<Longrightarrow>
   (a mod 4 * 16 + b div 16) mod 16 * 16 + b mod 16 * 4 div 4 = (b::nat)"
proof -
  assume "a < 256" "b < 256"
  have "(a mod 4 * 16 + b div 16) mod 16 = b div 16"
    using \<open>b < 256\<close> by (simp add: less_mult_imp_div_less)
  then show ?thesis by simp
qed

lemma nat_group2':
  "a < 256 \<Longrightarrow> b < 256 \<Longrightarrow> c < 256 \<Longrightarrow>
   (a mod 4 * 16 + b div 16) mod 16 * 16 + (b mod 16 * 4 + c div 64) div 4 = (b::nat)"
proof -
  assume "a < 256" "b < 256" "c < 256"
  have 1: "(a mod 4 * 16 + b div 16) mod 16 = b div 16"
    using \<open>b < 256\<close> by (simp add: less_mult_imp_div_less)
  have "c div 64 < 4" using \<open>c < 256\<close> by (simp add: less_mult_imp_div_less)
  then have 2: "(b mod 16 * 4 + c div 64) div 4 = b mod 16" by simp
  show ?thesis unfolding 1 2 by simp
qed

lemma nat_group3:
  "c < 256 \<Longrightarrow> (b mod 16 * 4 + c div 64) mod 4 * 64 + c mod 64 = (c::nat)"
proof -
  assume "c < 256"
  have "c div 64 < 4" using \<open>c < 256\<close> by (simp add: less_mult_imp_div_less)
  then have "(b mod 16 * 4 + c div 64) mod 4 = c div 64" by simp
  then show ?thesis by simp
qed


lemma b64_groups_sextets: "b64_groups (sextets_of d) = d"
proof (induction d rule: sextets_of.induct)
  case 1
  show ?case by simp
next
  case (2 a)
  show ?case using nat_group1 [OF unat_byte_less [of a]] by simp
next
  case (3 a b)
  show ?case
    using nat_group1 [OF unat_byte_less [of a]]
      nat_group2 [OF unat_byte_less [of a] unat_byte_less [of b]] by simp
next
  case (4 a b c r)
  show ?case
    using nat_group1 [OF unat_byte_less [of a]]
      nat_group2' [OF unat_byte_less [of a] unat_byte_less [of b] unat_byte_less [of c]]
      nat_group3 [OF unat_byte_less [of c], of "unat b"] 4
    by simp
qed

definition url_char :: "nat \<Rightarrow> char" where
  "url_char n = (if n = 62 then CHR ''-'' else if n = 63 then CHR ''_'' else b64_char n)"

lemma unbase64_b64_char: "n < 64 \<Longrightarrow> unbase64 (b64_char n) = Some n"
  by (auto simp: unbase64_def b64_char_def Let_def char_of_eq_iff take_bit_eq_mod)

lemma b64_char_not_special:
  "n < 64 \<Longrightarrow> b64_char n \<noteq> CHR ''='' \<and> b64_char n \<noteq> CHR ''-'' \<and> b64_char n \<noteq> CHR ''_''
     \<and> b64_char n \<noteq> CHR ''*''"
  by (auto simp: b64_char_def char_of_eq_iff take_bit_eq_mod)

lemma b64_char_plus: "n < 64 \<Longrightarrow> (b64_char n = CHR ''+'') = (n = 62)"
  by (auto simp: b64_char_def char_of_eq_iff take_bit_eq_mod)

lemma b64_char_slash: "n < 64 \<Longrightarrow> (b64_char n = CHR ''/'') = (n = 63)"
  by (auto simp: b64_char_def char_of_eq_iff take_bit_eq_mod)

lemma url_replace:
  "\<forall>n \<in> set ns. n < 64 \<Longrightarrow>
   replace_char CHR ''/'' CHR ''_'' (replace_char CHR ''+'' CHR ''-'' (map b64_char ns))
   = map url_char ns"
  by (induction ns)
     (auto simp: replace_char_def url_char_def b64_char_plus b64_char_slash)

lemma url_replace_back:
  "\<forall>n \<in> set ns. n < 64 \<Longrightarrow>
   replace_char CHR ''_'' CHR ''/'' (replace_char CHR ''-'' CHR ''+'' (map url_char ns))
   = map b64_char ns"
proof -
  have p: "\<And>n. n < 64 \<Longrightarrow>
      (if (if url_char n = CHR ''-'' then CHR ''+'' else url_char n) = CHR ''_'' then CHR ''/''
       else (if url_char n = CHR ''-'' then CHR ''+'' else url_char n)) = b64_char n"
  proof -
    fix n :: nat
    assume n: "n < 64"
    consider "n = 62" | "n = 63" | "n < 62" using n by linarith
    then show "(if (if url_char n = CHR ''-'' then CHR ''+'' else url_char n) = CHR ''_''
        then CHR ''/'' else (if url_char n = CHR ''-'' then CHR ''+'' else url_char n))
        = b64_char n"
    proof cases
      case 1
      then show ?thesis by (simp add: url_char_def b64_char_def)
    next
      case 2
      then show ?thesis by (simp add: url_char_def b64_char_def)
    next
      case 3
      then have "url_char n = b64_char n" by (simp add: url_char_def)
      with b64_char_not_special [OF n] show ?thesis by simp
    qed
  qed
  assume "\<forall>n \<in> set ns. n < 64"
  then show ?thesis
    by (induction ns) (simp_all add: replace_char_def p)
qed

lemma replace_char_append:
  "replace_char a b (xs @ ys) = replace_char a b xs @ replace_char a b ys"
  by (simp add: replace_char_def)

lemma replace_char_eqs:
  "a \<noteq> CHR ''='' \<Longrightarrow> replace_char a b (replicate k CHR ''='') = replicate k CHR ''=''"
  by (simp add: replace_char_def)

lemma dropWhile_replicate_eq: "P x \<Longrightarrow> dropWhile P (replicate k x @ ys) = dropWhile P ys"
  by (induction k) simp_all

lemma strip_trailing_eq_padded:
  assumes "\<forall>c \<in> set u. c \<noteq> CHR ''=''"
  shows "strip_trailing_eq (u @ replicate k CHR ''='') = u"
proof -
  have "dropWhile (\<lambda>c. c = CHR ''='') (rev u) = rev u"
    using assms by (cases "rev u") (auto dest: arg_cong [where f = set])
  then show ?thesis
    by (simp add: strip_trailing_eq_def dropWhile_replicate_eq)
qed

lemma url_char_not_special:
  "n < 64 \<Longrightarrow> url_char n \<noteq> CHR ''='' \<and> url_char n \<noteq> CHR ''*''"
  by (simp add: url_char_def b64_char_not_special)

lemma base64UrlEncode_sextets: "base64UrlEncode d = map url_char (sextets_of d)"
proof -
  have l: "\<forall>n \<in> set (sextets_of d). n < 64" by (simp add: sextets_of_less)
  have "\<forall>c \<in> set (map url_char (sextets_of d)). c \<noteq> CHR ''=''"
    using l by (auto simp: url_char_not_special)
  then show ?thesis
    unfolding base64UrlEncode_def b64_encode_sextets
    by (simp add: replace_char_append replace_char_eqs url_replace [OF l]
        strip_trailing_eq_padded)
qed

lemma b64_sextets_chars:
  "\<forall>n \<in> set ns. n < 64 \<Longrightarrow> b64_sextets (map b64_char ns @ replicate k CHR ''='') = ns"
proof (induction ns)
  case Nil
  show ?case by (cases k) simp_all
next
  case (Cons n ns)
  then show ?case by (simp add: unbase64_b64_char b64_char_not_special)
qed

lemma base64UrlDecode_url_chars:
  assumes "\<forall>n \<in> set ns. n < 64"
  shows "base64UrlDecode (map url_char ns) = b64_groups ns"
  by (simp add: base64UrlDecode_def Let_def url_replace_back [OF assms]
      buffer_from_base64_def b64_sextets_chars [OF assms])

lemma base64UrlDecode_encode: "base64UrlDecode (base64UrlEncode d) = d"
  by (simp add: base64UrlEncode_sextets base64UrlDecode_url_chars sextets_of_less
      b64_groups_sextets)


section \<open>Facts about invite/encoding\<close>

text \<open>
  \<open>slug_char\<close> holds of the characters a slug is made of: the URL-safe alphabet and
  the separator. A string of such characters is not a URL and has nothing to trim.
\<close>

lemma concat_chunks: "0 < n \<Longrightarrow> concat (chunks n s) = s"
proof (induction n s rule: chunks.induct)
  case (1 every str)
  show ?case
  proof (cases "str = []")
    case True
    then show ?thesis by (simp add: chunks.simps)
  next
    case False
    with 1 show ?thesis by (subst chunks.simps) simp
  qed
qed

lemma filter_join:
  "filter P sep = [] \<Longrightarrow> filter P (join sep ps) = concat (map (filter P) ps)"
  by (induction sep ps rule: join.induct) simp_all

lemma filter_insertSeparators:
  assumes "CHR ''*'' \<notin> set s"
  shows "filter (\<lambda>c. c \<noteq> CHR ''*'')
           (insertSeparators s IMESSAGE_SEPARATOR IMESSAGE_CHUNK_SIZE) = s"
proof -
  have s: "filter (\<lambda>c. c \<noteq> CHR ''*'') s = s"
    using assms by (auto simp: filter_id_conv)
  have "filter (\<lambda>c. c \<noteq> CHR ''*'') (join ''*'' (chunks 300 s))
        = concat (map (filter (\<lambda>c. c \<noteq> CHR ''*'')) (chunks 300 s))"
    by (rule filter_join) simp
  also have "\<dots> = filter (\<lambda>c. c \<noteq> CHR ''*'') (concat (chunks 300 s))"
    by (simp add: filter_concat)
  also have "\<dots> = s" by (simp add: concat_chunks s)
  finally show ?thesis
    by (simp add: insertSeparators_def IMESSAGE_SEPARATOR_def IMESSAGE_CHUNK_SIZE_def s)
qed

definition slug_char :: "char \<Rightarrow> bool" where
  "slug_char c \<longleftrightarrow> (\<exists>n < 64. c = url_char n) \<or> c = CHR ''*''"

lemma set_join: "set (join sep ps) \<subseteq> set sep \<union> \<Union> (set ` set ps)"
  by (induction sep ps rule: join.induct) auto

lemma set_chunks: "0 < n \<Longrightarrow> \<Union> (set ` set (chunks n s)) = set s"
  using concat_chunks [of n s] by (metis set_concat)

lemma slug_char_encodeToSlug: "c \<in> set (encodeToSlug L d) \<Longrightarrow> slug_char c"
proof -
  assume c: "c \<in> set (encodeToSlug L d)"
  let ?e = "base64UrlEncode (compressIfSmaller L d)"
  have e: "\<And>x. x \<in> set ?e \<Longrightarrow> slug_char x"
    by (auto simp: base64UrlEncode_sextets slug_char_def dest: sextets_of_less)
  show ?thesis
  proof (cases "length ?e \<le> 300")
    case True
    with c e show ?thesis
      by (simp add: encodeToSlug_def insertSeparators_def IMESSAGE_CHUNK_SIZE_def)
  next
    case False
    with c have "c \<in> set (join ''*'' (chunks 300 ?e))"
      by (simp add: encodeToSlug_def insertSeparators_def IMESSAGE_CHUNK_SIZE_def
          IMESSAGE_SEPARATOR_def)
    with set_join [of "''*''" "chunks 300 ?e"] set_chunks [of 300 ?e]
    have "c = CHR ''*'' \<or> c \<in> set ?e" by auto
    with e show ?thesis by (auto simp: slug_char_def)
  qed
qed

lemma url_char_code:
  "n < 64 \<Longrightarrow> (of_char (url_char n) :: nat) \<in> {45} \<union> {48..57} \<union> {65..90} \<union> {95} \<union> {97..122}"
  by (auto simp: url_char_def b64_char_def)

lemma slug_char_code:
  "slug_char c \<Longrightarrow> (of_char c :: nat) \<in> {42, 45} \<union> {48..57} \<union> {65..90} \<union> {95} \<union> {97..122}"
  using url_char_code by (auto simp: slug_char_def)


lemma ws_prefix_zero:
  assumes "s = [] \<or> (of_char (hd s) :: nat) \<notin> {9, 10, 11, 12, 13, 32, 0xC2, 0xE1, 0xE2, 0xE3, 0xEF}"
  shows "ws_prefix js_whitespace_seqs s = 0"
proof -
  have "\<And>w. w \<in> set js_whitespace_seqs \<Longrightarrow> take (length w) s \<noteq> w"
  proof
    fix w assume w: "w \<in> set js_whitespace_seqs" and t: "take (length w) s = w"
    from w have h: "w \<noteq> [] \<and> (of_char (hd w) :: nat) \<in> {9, 10, 11, 12, 13, 32, 0xC2, 0xE1, 0xE2, 0xE3, 0xEF}"
      by (auto simp: js_whitespace_seqs_def)
    with t have "s \<noteq> []" by auto
    with t h have "hd s = hd w" by (cases s; cases w) auto
    with assms h \<open>s \<noteq> []\<close> show False by auto
  qed
  then have "find (\<lambda>w. take (length w) s = w) js_whitespace_seqs = None"
    by (simp add: find_None_iff)
  then show ?thesis by (simp add: ws_prefix_def)
qed

lemma ws_suffix_zero:
  assumes "s = [] \<or> (of_char (hd s) :: nat) < 128 \<and> (of_char (hd s) :: nat) \<notin> {9, 10, 11, 12, 13, 32}"
  shows "ws_prefix (map rev js_whitespace_seqs) s = 0"
proof -
  have "\<And>w. w \<in> set (map rev js_whitespace_seqs) \<Longrightarrow> take (length w) s \<noteq> w"
  proof
    fix w assume w: "w \<in> set (map rev js_whitespace_seqs)" and t: "take (length w) s = w"
    from w have h: "w \<noteq> [] \<and> ((of_char (hd w) :: nat) \<in> {9, 10, 11, 12, 13, 32} \<or> (of_char (hd w) :: nat) \<ge> 128)"
      by (auto simp: js_whitespace_seqs_def)
    with t have "s \<noteq> []" by auto
    with t h have "hd s = hd w" by (cases s; cases w) auto
    with assms h \<open>s \<noteq> []\<close> show False by auto
  qed
  then have "find (\<lambda>w. take (length w) s = w) (map rev js_whitespace_seqs) = None"
    unfolding find_None_iff by blast
  then show ?thesis by (simp add: ws_prefix_def)
qed

lemma trim_slug:
  assumes "\<forall>c \<in> set s. slug_char c"
  shows "trim s = s"
proof -
  have a: "s = [] \<or> (of_char (hd s) :: nat) \<notin> {9, 10, 11, 12, 13, 32, 0xC2, 0xE1, 0xE2, 0xE3, 0xEF}"
  proof (cases s)
    case (Cons c r)
    with assms slug_char_code [of c] show ?thesis by auto
  qed simp
  have b: "rev s = [] \<or> (of_char (hd (rev s)) :: nat) < 128 \<and> (of_char (hd (rev s)) :: nat) \<notin> {9, 10, 11, 12, 13, 32}"
  proof (cases "rev s")
    case (Cons c r)
    then have "c \<in> set s" by (metis list.set_intros(1) set_rev)
    with assms slug_char_code [of c] Cons show ?thesis by auto
  qed simp
  have 1: "trimStart s = s"
    unfolding trimStart_def by (subst trim_with.simps) (simp add: ws_prefix_zero [OF a])
  have 2: "trimEnd s = s"
    unfolding trimEnd_def by (subst trim_with.simps) (simp add: ws_suffix_zero [OF b])
  show ?thesis by (simp add: trim_def 1 2)
qed

lemma has_scheme_slug:
  assumes "\<forall>c \<in> set s. slug_char c"
  shows "\<not> has_scheme s"
proof -
  have c: "\<And>c. c \<in> set s \<Longrightarrow> 32 < (of_char c :: nat) \<and> c \<noteq> CHR '':''"
    using assms slug_char_code by fastforce
  then have d: "dropWhile (\<lambda>c. (of_char c :: nat) \<le> 32) s = s"
    by (cases s) (auto simp: not_le)
  have f: "filter (\<lambda>c. (of_char c :: nat) \<notin> {9, 10, 13}) s = s"
    using c by (fastforce simp: filter_id_conv)
  show ?thesis
  proof (cases s)
    case Nil
    then show ?thesis by (simp add: has_scheme_def)
  next
    case (Cons a r)
    have "\<And>x xs. dropWhile scheme_char r = x # xs \<Longrightarrow> x \<noteq> CHR '':''"
    proof -
      fix x xs assume "dropWhile scheme_char r = x # xs"
      then have "x \<in> set r" by (metis list.set_intros(1) set_dropWhileD)
      with c Cons show "x \<noteq> CHR '':''" by auto
    qed
    then have h: "(case dropWhile scheme_char r of [] \<Rightarrow> False | d # _ \<Rightarrow> d = CHR '':'') = False"
      by (simp split: list.splits)
    have "has_scheme s = False"
      unfolding has_scheme_def Let_def d f unfolding Cons list.case h by simp
    then show ?thesis by simp
  qed
qed

lemma parseInviteCode_slug:
  assumes "\<forall>c \<in> set s. slug_char c"
  shows "parseInviteCode L s = s"
  by (simp add: parseInviteCode_def Let_def trim_slug [OF assms] URL_new_def
      has_scheme_slug [OF assms])

lemma decodeFromSlug_encodeToSlug:
  "decodeFromSlug L (parseInviteCode L (encodeToSlug L d)) = decompress L (compressIfSmaller L d)"
proof -
  have p: "parseInviteCode L (encodeToSlug L d) = encodeToSlug L d"
    by (rule parseInviteCode_slug) (auto dest: slug_char_encodeToSlug)
  have "\<forall>n \<in> set (sextets_of (compressIfSmaller L d)). url_char n \<noteq> CHR ''*''"
    using sextets_of_less url_char_not_special by blast
  then have n: "CHR ''*'' \<notin> set (base64UrlEncode (compressIfSmaller L d))"
    by (auto simp: base64UrlEncode_sextets)
  have "decodeFromSlug L (encodeToSlug L d) = decompress L (compressIfSmaller L d)"
    unfolding decodeFromSlug_def encodeToSlug_def
    by (simp add: filter_insertSeparators [OF n] base64UrlDecode_encode)
  then show ?thesis by (simp only: p)
qed


section \<open>Facts about utils/hex and invite/conversation-token\<close>

text \<open>
  \<open>ascii_lower\<close> is \<open>toLowerCase\<close> on ASCII; \<open>canonical_conversation_id\<close> is the
  form in which a conversation id comes back from its packed form.
\<close>

text \<open>
  \<open>hex_pairs\<close> reads a string two characters at a time; it is what \<open>hexToBytes\<close>
  returns for a string of ASCII characters of even length (\<open>hexToBytes_ascii\<close>).
\<close>

fun hex_pairs :: "string \<Rightarrow> bytes" where
  "hex_pairs (a # b # r) = to_uint8 (parseInt16 [a, b]) # hex_pairs r"
| "hex_pairs _ = []"

definition ascii_lower :: "char \<Rightarrow> char" where
  "ascii_lower c =
     (let n = (of_char c :: nat) in if 65 \<le> n \<and> n \<le> 90 then char_of (n + 32) else c)"

lemma hex_digit_facts:
  assumes "is_hex_digit c"
  obtains v where "hex_digit_value c = Some v" "v < 16" "hex_char v = ascii_lower c"
    "(of_char c :: nat) \<notin> {9, 10, 11, 12, 13, 32, 0xC2, 0xE1, 0xE2, 0xE3, 0xEF}"
    "c \<noteq> CHR ''-''" "c \<noteq> CHR ''+''" "c \<noteq> CHR ''x''" "c \<noteq> CHR ''X''"
proof -
  define n where "n = (of_char c :: nat)"
  have c: "c = char_of n" by (simp add: n_def)
  from assms have r: "(48 \<le> n \<and> n \<le> 57) \<or> (97 \<le> n \<and> n \<le> 102) \<or> (65 \<le> n \<and> n \<le> 70)"
    by (auto simp: is_hex_digit_def hex_digit_value_def Let_def n_def split: if_splits)
  have n256: "n < 256" by (simp add: n_def)
  from r obtain v where v: "hex_digit_value c = Some v" "v < 16"
    "v = (if n \<le> 57 then n - 48 else if 97 \<le> n then n - 87 else n - 55)"
    by (auto simp: hex_digit_value_def Let_def n_def [symmetric])
  have l: "hex_char v = ascii_lower c"
    using r v(3) n256
    by (auto simp: hex_char_def ascii_lower_def Let_def n_def [symmetric] c
        char_of_eq_iff take_bit_eq_mod)
  have w: "(of_char c :: nat) \<notin> {9, 10, 11, 12, 13, 32, 0xC2, 0xE1, 0xE2, 0xE3, 0xEF}"
    using r by (auto simp: n_def [symmetric])
  have o: "c \<noteq> CHR ''-''" "c \<noteq> CHR ''+''" "c \<noteq> CHR ''x''" "c \<noteq> CHR ''X''"
    using r n256 by (auto simp: c char_of_eq_iff take_bit_eq_mod)
  from v(1,2) l w o show ?thesis by (rule that)
qed

lemma hex_pair_byte:
  assumes "is_hex_digit a" "is_hex_digit b"
  shows "byte_hex (to_uint8 (parseInt16 [a, b])) = [ascii_lower a, ascii_lower b]"
proof -
  from assms(1) obtain va where a: "hex_digit_value a = Some va" "va < 16"
    "hex_char va = ascii_lower a"
    "(of_char a :: nat) \<notin> {9, 10, 11, 12, 13, 32, 0xC2, 0xE1, 0xE2, 0xE3, 0xEF}"
    "a \<noteq> CHR ''-''" "a \<noteq> CHR ''+''"
    by (rule hex_digit_facts)
  from assms(2) obtain vb where b: "hex_digit_value b = Some vb" "vb < 16"
    "hex_char vb = ascii_lower b" "b \<noteq> CHR ''x''" "b \<noteq> CHR ''X''"
    by (rule hex_digit_facts)
  define n where "n = 16 * va + vb"
  have n: "n < 256" "n div 16 = va" "n mod 16 = vb" using a(2) b(2) by (simp_all add: n_def)
  have z: "ws_prefix js_whitespace_seqs [a, b] = 0"
    by (rule ws_prefix_zero) (use a(4) in simp)
  have t: "trimStart [a, b] = [a, b]"
    unfolding trimStart_def by (subst trim_with.simps) (simp add: z)
  have p: "parseInt16 [a, b] = Some (int n)"
    using a b by (simp add: parseInt16_def Let_def n_def t)
  have u: "unat (to_uint8 (Some (int n))) = n"
    using n(1) by (simp add: to_uint8_def unat_of_nat_byte)
  show ?thesis
    unfolding byte_hex_def p u n using a(3) b(3) by simp
qed

lemma bytesToHex_hex_pairs:
  "even (length s) \<Longrightarrow> \<forall>c \<in> set s. is_hex_digit c \<Longrightarrow>
   bytesToHex (hex_pairs s) = map ascii_lower s"
  by (induction s rule: hex_pairs.induct) (simp_all add: bytesToHex_def hex_pair_byte)

definition lower_hex :: "char \<Rightarrow> bool" where
  "lower_hex c \<longleftrightarrow> (let n = (of_char c :: nat) in (48 \<le> n \<and> n \<le> 57) \<or> (97 \<le> n \<and> n \<le> 102))"

lemma lower_hex_is_hex: "lower_hex c \<Longrightarrow> is_hex_digit c \<and> ascii_lower c = c"
  by (auto simp: lower_hex_def is_hex_digit_def hex_digit_value_def ascii_lower_def Let_def)

lemma length_hex_pairs: "length (hex_pairs s) = length s div 2"
  by (induction s rule: hex_pairs.induct) simp_all


lemma hex_pairs_indexed:
  "length h = 2 * n \<Longrightarrow>
   map (\<lambda>i. to_uint8 (parseInt16 (take 2 (drop (i * 2) h)))) [0 ..< n] = hex_pairs h"
proof (induction n arbitrary: h)
  case 0
  then show ?case by simp
next
  case (Suc n)
  then obtain a b r where h: "h = a # b # r" "length r = 2 * n"
    by (cases h; cases "tl h") auto
  have "map (\<lambda>i. to_uint8 (parseInt16 (take 2 (drop (i * 2) h)))) [0 ..< Suc n]
        = to_uint8 (parseInt16 (take 2 h))
          # map (\<lambda>i. to_uint8 (parseInt16 (take 2 (drop (Suc i * 2) h)))) [0 ..< n]"
    by (simp add: upt_conv_Cons map_Suc_upt [symmetric] del: upt_Suc)
  also have "\<dots> = to_uint8 (parseInt16 [a, b])
          # map (\<lambda>i. to_uint8 (parseInt16 (take 2 (drop (i * 2) r)))) [0 ..< n]"
    by (simp add: h)
  also have "\<dots> = hex_pairs h"
    using Suc.IH [OF h(2)] by (simp add: h)
  finally show ?case .
qed

lemma utf16_units_ascii:
  "\<forall>c \<in> set s. (of_char c :: nat) < 0xC0 \<Longrightarrow> utf16_units s = map (\<lambda>c. [c]) s"
  by (induction s) (simp_all add: utf16_units.simps)

lemma hexToBytes_ascii:
  assumes "even (length s)" "\<forall>c \<in> set s. (of_char c :: nat) < 0xC0"
  shows "hexToBytes s = Inr (hex_pairs s)"
proof -
  note u = utf16_units_ascii [OF assms(2)]
  have c: "concat (take 2 (drop k (map (\<lambda>c. [c]) s))) = take 2 (drop k s)" for k
    by (simp add: take_map drop_map)
  from assms(1) obtain n where n: "length s = 2 * n" by (auto elim: evenE)
  have "map (\<lambda>i. to_uint8 (parseInt16 (take 2 (drop (i * 2) s)))) [0 ..< n] = hex_pairs s"
    by (rule hex_pairs_indexed [OF n])
  then show ?thesis
    by (simp add: hexToBytes_def Let_def u c n)
qed

lemma bytesToHex_hexToBytes:
  assumes "even (length s)" "\<forall>c \<in> set s. lower_hex c"
  shows "hexToBytes s = Inr (hex_pairs s)" "bytesToHex (hex_pairs s) = s"
proof -
  have "\<forall>c \<in> set s. (of_char c :: nat) < 0xC0"
    using assms(2) by (auto simp: lower_hex_def Let_def)
  with assms(1) show "hexToBytes s = Inr (hex_pairs s)"
    by (rule hexToBytes_ascii)
  have "\<forall>c \<in> set s. is_hex_digit c" using assms(2) lower_hex_is_hex by blast
  then have "bytesToHex (hex_pairs s) = map ascii_lower s"
    using assms(1) by (simp add: bytesToHex_hex_pairs)
  also have "\<dots> = s" using assms(2) lower_hex_is_hex by (simp add: map_idI)
  finally show "bytesToHex (hex_pairs s) = s" .
qed

lemma UUID_PATTERN_nth:
  assumes "UUID_PATTERN_test s"
  shows "length s = 36"
    and "\<And>i. i < 36 \<Longrightarrow> i \<in> {8, 13, 18, 23} \<Longrightarrow> s ! i = CHR ''-''"
    and "\<And>i. i < 36 \<Longrightarrow> i \<notin> {8, 13, 18, 23} \<Longrightarrow> is_hex_digit (s ! i)"
proof -
  from assms show l: "length s = 36" by (simp add: UUID_PATTERN_test_def)
  from assms have a: "\<forall>i < 36. (if i \<in> {8, 13, 18, 23} then s ! i = CHR ''-''
                               else is_hex_digit (s ! i))"
    using l by (simp add: UUID_PATTERN_test_def list_all_length)
  show "\<And>i. i < 36 \<Longrightarrow> i \<in> {8, 13, 18, 23} \<Longrightarrow> s ! i = CHR ''-''"
    using a by (metis (full_types))
  show "\<And>i. i < 36 \<Longrightarrow> i \<notin> {8, 13, 18, 23} \<Longrightarrow> is_hex_digit (s ! i)"
    using a by (metis (full_types))
qed

lemma list_split_at: "n < length s \<Longrightarrow> s = take n s @ s ! n # drop (Suc n) s"
  by (simp add: id_take_nth_drop [symmetric])

lemma UUID_PATTERN_groups:
  assumes "UUID_PATTERN_test s"
  obtains g1 g2 g3 g4 g5 where
    "s = g1 @ ''-'' @ g2 @ ''-'' @ g3 @ ''-'' @ g4 @ ''-'' @ g5"
    "length g1 = 8" "length g2 = 4" "length g3 = 4" "length g4 = 4" "length g5 = 12"
    "\<forall>c \<in> set (g1 @ g2 @ g3 @ g4 @ g5). is_hex_digit c"
proof -
  note n = UUID_PATTERN_nth [OF assms]
  define g1 where "g1 = take 8 s"
  define g2 where "g2 = take 4 (drop 9 s)"
  define g3 where "g3 = take 4 (drop 14 s)"
  define g4 where "g4 = take 4 (drop 19 s)"
  define g5 where "g5 = drop 24 s"
  have len: "length g1 = 8" "length g2 = 4" "length g3 = 4" "length g4 = 4" "length g5 = 12"
    using n(1) by (simp_all add: g1_def g2_def g3_def g4_def g5_def)
  have e: "s = g1 @ ''-'' @ g2 @ ''-'' @ g3 @ ''-'' @ g4 @ ''-'' @ g5"
  proof (rule nth_equalityI)
    show "length s = length (g1 @ ''-'' @ g2 @ ''-'' @ g3 @ ''-'' @ g4 @ ''-'' @ g5)"
      using n(1) len by simp
  next
    fix i assume i: "i < length s"
    then have i36: "i < 36" using n(1) by simp
    consider "i < 8" | "i = 8" | "8 < i \<and> i < 13" | "i = 13" | "13 < i \<and> i < 18" | "i = 18"
      | "18 < i \<and> i < 23" | "i = 23" | "23 < i" by linarith
    then show "s ! i = (g1 @ ''-'' @ g2 @ ''-'' @ g3 @ ''-'' @ g4 @ ''-'' @ g5) ! i"
    proof cases
      case 1 then show ?thesis using len n(1) by (simp add: nth_append g1_def)
    next
      case 2 then show ?thesis using len n(2) [of 8] by (simp add: nth_append)
    next
      case 3 then show ?thesis using len n(1)
        by (simp add: nth_append nth_Cons' g2_def) arith
    next
      case 4 then show ?thesis using len n(2) [of 13] by (simp add: nth_append)
    next
      case 5 then show ?thesis using len n(1) by (simp add: nth_append nth_Cons' g3_def) arith
    next
      case 6 then show ?thesis using len n(2) [of 18] by (simp add: nth_append)
    next
      case 7 then show ?thesis using len n(1) by (simp add: nth_append nth_Cons' g4_def) arith
    next
      case 8 then show ?thesis using len n(2) [of 23] by (simp add: nth_append)
    next
      case 9 then show ?thesis using len n(1) i36 by (simp add: nth_append nth_Cons' g5_def) arith
    qed
  qed
  have h: "\<forall>c \<in> set (g1 @ g2 @ g3 @ g4 @ g5). is_hex_digit c"
  proof
    fix c assume "c \<in> set (g1 @ g2 @ g3 @ g4 @ g5)"
    then consider "c \<in> set g1" | "c \<in> set g2" | "c \<in> set g3" | "c \<in> set g4" | "c \<in> set g5"
      by auto
    then show "is_hex_digit c"
    proof cases
      case 1
      then obtain i where "i < 8" "c = s ! i"
        using n(1) by (auto simp: g1_def in_set_conv_nth)
      then show ?thesis using n(3) [of i] by simp
    next
      case 2
      then obtain i where "i < 4" "c = s ! (9 + i)"
        using n(1) by (auto simp: g2_def in_set_conv_nth)
      then show ?thesis using n(3) [of "9 + i"] by simp
    next
      case 3
      then obtain i where "i < 4" "c = s ! (14 + i)"
        using n(1) by (auto simp: g3_def in_set_conv_nth)
      then show ?thesis using n(3) [of "14 + i"] by simp
    next
      case 4
      then obtain i where "i < 4" "c = s ! (19 + i)"
        using n(1) by (auto simp: g4_def in_set_conv_nth)
      then show ?thesis using n(3) [of "19 + i"] by simp
    next
      case 5
      then obtain i where "i < 12" "c = s ! (24 + i)"
        using n(1) by (auto simp: g5_def in_set_conv_nth)
      then show ?thesis using n(3) [of "24 + i"] by simp
    qed
  qed
  from e len h show ?thesis by (rule that)
qed


lemma ascii_lower_hyphen: "ascii_lower CHR ''-'' = CHR ''-''"
  by (simp add: ascii_lower_def)

lemma is_hex_digit_not_hyphen: "is_hex_digit c \<Longrightarrow> c \<noteq> CHR ''-''"
  by (erule hex_digit_facts)

lemma bytesToUuid_uuidToBytes:
  assumes "UUID_PATTERN_test s"
  shows "bytesToUuid (uuidToBytes s) = map ascii_lower s" "length (uuidToBytes s) = 16"
proof -
  from assms obtain g1 g2 g3 g4 g5 where
    s: "s = g1 @ ''-'' @ g2 @ ''-'' @ g3 @ ''-'' @ g4 @ ''-'' @ g5"
    and len: "length g1 = 8" "length g2 = 4" "length g3 = 4" "length g4 = 4" "length g5 = 12"
    and h: "\<forall>c \<in> set (g1 @ g2 @ g3 @ g4 @ g5). is_hex_digit c"
    by (rule UUID_PATTERN_groups)
  let ?h = "g1 @ g2 @ g3 @ g4 @ g5"
  have nh: "\<forall>c \<in> set ?h. c \<noteq> CHR ''-''" using h is_hex_digit_not_hyphen by blast
  then have f: "filter (\<lambda>c. c \<noteq> CHR ''-'') s = ?h"
    unfolding s by (auto simp: filter_id_conv)
  have l32: "length ?h = 2 * 16" using len by simp
  have u: "uuidToBytes s = hex_pairs ?h"
    unfolding uuidToBytes_def Let_def f by (rule hex_pairs_indexed [OF l32])
  show "length (uuidToBytes s) = 16" unfolding u using len by (simp add: length_hex_pairs)
  have "concat (map byte_hex (hex_pairs ?h)) = map ascii_lower ?h"
    using bytesToHex_hex_pairs [of ?h] h len by (simp add: bytesToHex_def)
  then show "bytesToUuid (uuidToBytes s) = map ascii_lower s"
    unfolding u bytesToUuid_def Let_def using len
    by (simp add: s ascii_lower_hyphen)
qed

definition canonical_conversation_id :: "string \<Rightarrow> string" where
  "canonical_conversation_id c = (if UUID_PATTERN_test c then map ascii_lower c else c)"

lemma length_utf8_encode: "length (utf8_encode s) = length s"
  by (simp add: utf8_encode_def)

text \<open>
  \<open>TextDecoder\<close> returns a string of ASCII characters as it is. A string that begins
  with U+FEFF comes back without it.
\<close>

lemma utf8_decoder_ascii:
  "\<forall>c \<in> set s. (of_char c :: nat) < 128 \<Longrightarrow> utf8_decoder (utf8_encode s) = s"
  by (induction s) (simp_all add: utf8_encode_def utf8_decoder.simps unat_of_nat)

lemma TextDecoder_decode_ascii:
  assumes "\<forall>c \<in> set s. (of_char c :: nat) < 128"
  shows "TextDecoder_decode (utf8_encode s) = s"
proof -
  have "take 3 (utf8_encode s) \<noteq> [0xEF, 0xBB, 0xBF]"
  proof (cases s)
    case Nil
    then show ?thesis by (simp add: utf8_encode_def)
  next
    case (Cons c r)
    with assms have "(of_char c :: nat) < 128" by simp
    then have "unat (of_nat (of_char c) :: byte) \<noteq> unat (0xEF :: byte)"
      by (simp add: unat_of_nat)
    then have "(of_nat (of_char c) :: byte) \<noteq> 0xEF" by auto
    then show ?thesis by (simp add: Cons utf8_encode_def)
  qed
  then show ?thesis
    by (simp add: TextDecoder_decode_def utf8_decoder_ascii [OF assms])
qed

lemma TextDecoder_decode_bom:
  "TextDecoder_decode (utf8_encode (map char_of [0xEF, 0xBB, 0xBF :: nat] @ ''abc'')) = ''abc''"
proof -
  have "utf8_encode (map char_of [0xEF, 0xBB, 0xBF :: nat] @ ''abc'')
        = [0xEF, 0xBB, 0xBF] @ utf8_encode ''abc''"
    by (simp add: utf8_encode_def)
  then show ?thesis
    using utf8_decoder_ascii [of "''abc''"] by (simp add: TextDecoder_decode_def)
qed

lemma unpack_pack_conversation_id:
  assumes "UUID_PATTERN_test c
           \<or> (1 \<le> length c \<and> length c \<le> 65535 \<and> TextDecoder_decode (utf8_encode c) = c)"
  shows "unpackConversationId (packConversationId c) = Inr (canonical_conversation_id c)"
proof (cases "UUID_PATTERN_test c")
  case True
  then show ?thesis
    using bytesToUuid_uuidToBytes [OF True]
    by (simp add: packConversationId_def unpackConversationId_def canonical_conversation_id_def
        TYPE_UUID_def)
next
  case False
  with assms have l: "1 \<le> length c" "length c \<le> 65535"
    and td: "TextDecoder_decode (utf8_encode c) = c" by simp_all
  show ?thesis
  proof (cases "length c \<le> 255")
    case True
    define n where "n = length c"
    have u: "unat (of_nat n :: byte) = n" using True by (simp add: n_def unat_of_nat_byte)
    have nz: "(of_nat n :: byte) \<noteq> 0"
    proof
      assume "(of_nat n :: byte) = 0"
      then have "unat (of_nat n :: byte) = 0" by simp
      with u l(1) show False by (simp add: n_def)
    qed
    show ?thesis
      using False True u nz
      by (simp add: packConversationId_def unpackConversationId_def
          canonical_conversation_id_def TYPE_UUID_def TYPE_STRING_def Let_def
          length_utf8_encode n_def [symmetric] td)
  next
    case long: False
    define n where "n = length c"
    define hi :: byte where "hi = of_nat (n div 256 mod 256)"
    define lo :: byte where "lo = of_nat (n mod 256)"
    have hi: "unat hi = n div 256 mod 256" by (simp add: hi_def unat_of_nat_byte)
    have lo: "unat lo = n mod 256" by (simp add: lo_def unat_of_nat_byte)
    have "n div 256 < 256" using l(2) by (simp add: n_def less_mult_imp_div_less)
    then have e: "unat hi * 256 + unat lo = n" by (simp add: hi lo)
    have p: "packConversationId c = [TYPE_STRING, 0, hi, lo] @ utf8_encode c"
      using False long by (simp add: packConversationId_def Let_def length_utf8_encode
          hi_def lo_def n_def)
    show ?thesis
      unfolding p using False e
      by (simp add: unpackConversationId_def canonical_conversation_id_def TYPE_UUID_def
          TYPE_STRING_def Let_def length_utf8_encode n_def [symmetric] td)
  qed
qed

lemma constantTimeEqual_fold_same:
  "fold (\<lambda>(x, y) result. result OR (x XOR y)) (zip a a) (r :: byte) = r"
  by (induction a arbitrary: r) simp_all

lemma constantTimeEqual_refl: "constantTimeEqual a a"
  by (simp add: constantTimeEqual_def constantTimeEqual_fold_same)


section \<open>Sizes of what the writer writes\<close>

lemma length_varint_bytes: "n < 128 ^ k \<Longrightarrow> 0 < k \<Longrightarrow> length (varint_bytes n) \<le> k"
proof (induction k arbitrary: n)
  case 0
  then show ?case by simp
next
  case (Suc k)
  show ?case
  proof (cases "n > 127")
    case True
    with Suc.prems have k: "0 < k" by (cases k) auto
    from Suc.prems have "n < 128 * 128 ^ k" by simp
    then have "n div 128 < 128 ^ k" by (simp add: less_mult_imp_div_less mult.commute)
    from Suc.IH [OF this k] True show ?thesis
      by (subst varint_bytes.simps) simp
  next
    case False
    then show ?thesis by (subst varint_bytes.simps) simp
  qed
qed

lemma length_write_uint32: "length (write_uint32 v) \<le> 5"
proof -
  have "v mod 2 ^ 32 < (2 ^ 32 :: nat)" by simp
  also have "(2 ^ 32 :: nat) < 128 ^ 5" by simp
  finally show ?thesis
    unfolding write_uint32_def by (rule length_varint_bytes) simp
qed

lemma length_enc_tag: "length (enc_tag f wt) \<le> 5"
  by (simp add: enc_tag_def length_write_uint32)

lemma length_enc_bytes_field: "length (enc_bytes_field f v) \<le> length v + 10"
  using length_enc_tag [of f 2] length_write_uint32 [of "length v"]
  by (simp add: enc_bytes_field_def)

lemma length_enc_string_field: "length (enc_string_field f v) \<le> length v + 10"
  using length_enc_bytes_field [of f "utf8_encode v"]
  by (simp add: enc_string_field_def length_utf8_encode)

lemma length_enc_sfixed64_field: "length (enc_sfixed64_field f v) \<le> 13"
  using length_enc_tag [of f 1] by (simp add: enc_sfixed64_field_def length_le_bytes)

lemma length_enc_bool_field: "length (enc_bool_field f v) \<le> 6"
  using length_enc_tag [of f 0] by (simp add: enc_bool_field_def)

definition opt_length :: "'a list option \<Rightarrow> nat" where
  "opt_length v = (case v of None \<Rightarrow> 0 | Some s \<Rightarrow> length s)"

lemma length_enc_opt_string:
  "length (enc_opt (enc_string_field f) v) \<le> opt_length v + 10"
  using length_enc_string_field by (cases v) (simp_all add: enc_opt_def opt_length_def)

lemma length_enc_opt_bytes:
  "length (enc_opt (enc_bytes_field f) v) \<le> opt_length v + 10"
  using length_enc_bytes_field by (cases v) (simp_all add: enc_opt_def opt_length_def)

lemma length_enc_opt_sfixed64: "length (enc_opt (enc_sfixed64_field f) v) \<le> 13"
  using length_enc_sfixed64_field by (cases v) (simp_all add: enc_opt_def)

lemma length_encodeInvitePayload:
  "length (encodeInvitePayload p)
   \<le> length (ip_conversationToken p) + length (ip_creatorInboxId p) + length (ip_tag p)
     + opt_length (ip_name p) + opt_length (ip_description p) + opt_length (ip_imageURL p)
     + 92"
  using length_enc_bytes_field [of 1 "ip_conversationToken p"]
    length_enc_bytes_field [of 2 "ip_creatorInboxId p"]
    length_enc_string_field [of 3 "ip_tag p"]
    length_enc_opt_string [of 4 "ip_name p"]
    length_enc_opt_string [of 5 "ip_description p"]
    length_enc_opt_string [of 6 "ip_imageURL p"]
    length_enc_opt_sfixed64 [of 7 "truthy_bigint (ip_conversationExpiresAtUnix p)"]
    length_enc_opt_sfixed64 [of 8 "truthy_bigint (ip_expiresAtUnix p)"]
    length_enc_bool_field [of 9 "ip_expiresAfterUse p"]
  by (simp add: encodeInvitePayload_def)

lemma length_encodeSignedInvite:
  "length (encodeSignedInvite s) \<le> length (si_payload s) + length (si_signature s) + 20"
  using length_enc_bytes_field [of 1 "si_payload s"]
    length_enc_bytes_field [of 2 "si_signature s"]
  by (simp add: encodeSignedInvite_def)

lemma enc_tag_1_2: "enc_tag 1 2 = [0x0A]"
  by (simp add: enc_tag_def write_uint32_def varint_bytes.simps)

lemma enc_tag_1_2': "enc_tag (Suc 0) 2 = [0x0A]"
  using enc_tag_1_2 by simp

lemma hd_encodeSignedInvite:
  "encodeSignedInvite s \<noteq> [] \<and> hd (encodeSignedInvite s) = 0x0A"
  by (simp add: encodeSignedInvite_def enc_bytes_field_def enc_tag_1_2 enc_tag_1_2')

lemma hd_encodeConversationMetadata:
  "encodeConversationMetadata m \<noteq> [] \<and> hd (encodeConversationMetadata m) = 0x0A"
  by (simp add: encodeConversationMetadata_def enc_string_field_def enc_bytes_field_def
      enc_tag_1_2 enc_tag_1_2')

section \<open>Facts about the conversation token and the signature\<close>

lemma length_packConversationId: "length (packConversationId c) \<le> length c + 4"
  by (auto simp: packConversationId_def Let_def length_utf8_encode
      bytesToUuid_uuidToBytes(2) dest: UUID_PATTERN_nth(1))

lemma token_round_trip:
  assumes "aead_ok L" "hkdf_ok L" "length nonce = 12"
  obtains ct where
    "encryptConversationToken L nonce c inbox priv = Inr (FORMAT_VERSION # nonce @ ct)"
    "length ct = length (packConversationId c) + 16"
    "decryptConversationToken L (FORMAT_VERSION # nonce @ ct) inbox priv
     = unpackConversationId (packConversationId c)"
proof -
  let ?key = "deriveInviteKey L priv inbox"
  have k: "length ?key = 32"
    using assms(2) by (simp add: hkdf_ok_def deriveInviteKey_def)
  from assms(1) k assms(3) obtain ct where
    ct: "chacha_encrypt L ?key nonce (utf8_encode inbox) (packConversationId c) = Some ct"
      "length ct = length (packConversationId c) + 16"
      "chacha_decrypt L ?key nonce (utf8_encode inbox) ct = Some (packConversationId c)"
    unfolding aead_ok_def by blast
  have e: "encryptConversationToken L nonce c inbox priv = Inr (FORMAT_VERSION # nonce @ ct)"
    by (simp add: encryptConversationToken_def encrypt_def ct(1))
  have d: "decryptConversationToken L (FORMAT_VERSION # nonce @ ct) inbox priv
     = unpackConversationId (packConversationId c)"
    using assms(3) ct(2)
    by (simp add: decryptConversationToken_def decrypt_def NONCE_LENGTH_def TAG_LENGTH_def
        ct(3))
  from e ct(2) d show thesis by (rule that)
qed

lemma sign_verify:
  assumes "secp_ok L priv"
  obtains sig where
    "signWithRecovery L (hashSha256 L pb) priv = Inr sig"
    "length sig = 65"
    "verifyInviteWithPrivateKey L \<lparr> si_payload = pb, si_signature = sig \<rparr> priv = Inr True"
proof -
  from assms obtain pk where pk: "secp_getPublicKey L priv = Some pk" "length pk = 65"
    and all: "\<forall>h. \<exists>sig recId. secp_sign L h priv = Some (sig, recId) \<and> length sig = 64
               \<and> recId \<le> 3 \<and> secp_recover L h sig recId = Some pk"
    unfolding secp_ok_def by blast
  from all obtain cs recId where
    s: "secp_sign L (hashSha256 L pb) priv = Some (cs, recId)" "length cs = 64" "recId \<le> 3"
      "secp_recover L (hashSha256 L pb) cs recId = Some pk"
    by blast
  define r :: byte where "r = of_nat recId"
  have r: "unat r = recId"
    using s(3) by (simp add: r_def unat_of_nat)
  have sg: "signWithRecovery L (hashSha256 L pb) priv = Inr (cs @ [r])"
    using s(1,2) by (simp add: signWithRecovery_def r_def)
  have n: "(cs @ [r]) ! 64 = r"
    using s(2) by (simp add: nth_append)
  have rc: "recoverPublicKey L (hashSha256 L pb) (cs @ [r]) = Inr pk"
    using s(2,3,4) by (simp add: recoverPublicKey_def Let_def n r)
  have v: "verifyInviteWithPrivateKey L \<lparr> si_payload = pb, si_signature = cs @ [r] \<rparr> priv
           = Inr True"
    by (simp add: verifyInviteWithPrivateKey_def getPublicKey_def pk verifyInvite_def
        verifyInvite_try_def rc normalizePublicKey_def constantTimeEqual_refl)
  from sg _ v show thesis by (rule that) (simp add: s(2))
qed

section \<open>The instance of the libraries meets the contracts\<close>

lemma demo_inflate_deflate: "demo_deflate x = Some c \<Longrightarrow> demo_inflate c = Some x"
  by (auto simp: demo_deflate_def unat_of_nat split: if_splits)

lemma demo_zlib_ok: "zlib_ok demo_libs"
  by (simp add: zlib_ok_def demo_libs_def demo_inflate_deflate)

lemma demo_hkdf_ok: "hkdf_ok demo_libs"
  by (auto simp: hkdf_ok_def demo_libs_def demo_hkdf_def)

lemma xor_5A_twice: "map ((\<lambda>b. b XOR 0x5A) \<circ> (\<lambda>b. b XOR 0x5A)) pt = (pt :: bytes)"
  by (induction pt) (simp_all add: xor.assoc)

lemma demo_aead_ok: "aead_ok demo_libs"
  by (simp add: aead_ok_def demo_libs_def demo_encrypt_def demo_decrypt_def demo_tag_def
      xor_5A_twice)

lemma xor_bytes_self: "length a = length b \<Longrightarrow> xor_bytes (xor_bytes a b) b = a"
  by (induction a b rule: list_induct2) (simp_all add: xor_bytes_def xor.assoc)

lemma demo_secp_ok:
  assumes "length k = 32" "k \<noteq> replicate 32 0"
  shows "secp_ok demo_libs k"
  using assms
  by (auto simp: secp_ok_def demo_libs_def demo_getPublicKey_def demo_sign_def
      demo_recover_def xor_bytes_def pad32_def)

section \<open>Parsing what createInviteSlug mints\<close>

text \<open>
  \<open>options_size\<close> adds up the lengths of the strings an invite is minted from;
  \<open>date_ok\<close> says that a \<open>Date\<close>, if given, is in the range of valid dates;
  \<open>expiry_seconds\<close> is what a parsed invite holds for a \<open>Date\<close> of the options: its
  whole seconds, and nothing when they are 0.
\<close>

definition options_size :: "CreateInviteOptions \<Rightarrow> nat" where
  "options_size options =
     length (o_conversationId options) + length (o_creatorInboxId options)
     + length (o_inviteTag options) + opt_length (o_name options)
     + opt_length (o_description options) + opt_length (o_imageURL options)"

definition date_ok :: "int option \<Rightarrow> bool" where
  "date_ok d =
     (case d of None \<Rightarrow> True
      | Some ms \<Rightarrow> - 8640000000000000 \<le> ms \<and> ms \<le> 8640000000000000)"

definition expiry_seconds :: "int option \<Rightarrow> int option" where
  "expiry_seconds d =
     (case d of None \<Rightarrow> None
      | Some ms \<Rightarrow> if ms div 1000 = 0 then None else Some (ms div 1000))"

lemma read_back_long_seconds:
  assumes "date_ok d"
  shows "read_back_long (map_option (\<lambda>ms. ms div 1000) d) = expiry_seconds d"
proof (cases d)
  case None
  then show ?thesis by (simp add: read_back_long_def truthy_bigint_def expiry_seconds_def)
next
  case (Some ms)
  with assms have b: "- 8640000000000000 \<le> ms" "ms \<le> 8640000000000000"
    by (simp_all add: date_ok_def)
  have "(- 8640000000000000) div 1000 \<le> ms div 1000" "ms div 1000 \<le> 8640000000000000 div 1000"
    using b by (intro zdiv_mono1; simp)+
  then have "- (2 ^ 63) \<le> ms div 1000" "ms div 1000 < 2 ^ 63" by simp_all
  then have "wrap64 (ms div 1000) = ms div 1000" by (rule wrap64_id)
  then show ?thesis
    by (simp add: Some read_back_long_def truthy_bigint_def expiry_seconds_def
        nonzero_long_def)
qed

lemma create_parse:
  assumes libs: "zlib_ok L" "aead_ok L" "hkdf_ok L" "secp_ok L (o_privateKey opts)"
    and nonce: "length nonce = 12"
    and inbox: "even (length (o_creatorInboxId opts))"
      "\<forall>c \<in> set (o_creatorInboxId opts). lower_hex c"
    and size: "options_size opts \<le> 1000000"
    and dates: "date_ok (o_expiresAt opts)" "date_ok (o_conversationExpiresAt opts)"
  obtains slug si token where
    "createInviteSlug L nonce opts = Inr slug"
    "\<forall>c \<in> set slug. slug_char c"
    "parseInviteSlug L now_ms slug =
       Inr \<lparr> pi_signedInvite = si,
             pi_payload =
               \<lparr> ip_conversationToken = token,
                 ip_creatorInboxId = hex_pairs (o_creatorInboxId opts),
                 ip_tag = o_inviteTag opts,
                 ip_name = read_back_string (o_name opts),
                 ip_description = read_back_string (o_description opts),
                 ip_imageURL = read_back_string (o_imageURL opts),
                 ip_conversationExpiresAtUnix = expiry_seconds (o_conversationExpiresAt opts),
                 ip_expiresAtUnix = expiry_seconds (o_expiresAt opts),
                 ip_expiresAfterUse = (o_expiresAfterUse opts = Some True) \<rparr>,
             pi_creatorInboxId = o_creatorInboxId opts,
             pi_isExpired =
               (case expiry_seconds (o_expiresAt opts) of
                  None \<Rightarrow> False | Some t \<Rightarrow> t < now_ms div 1000),
             pi_isConversationExpired =
               (case expiry_seconds (o_conversationExpiresAt opts) of
                  None \<Rightarrow> False | Some t \<Rightarrow> t < now_ms div 1000) \<rparr>"
    "verifyInviteWithPrivateKey L si (o_privateKey opts) = Inr True"
    "decryptConversationToken L token (o_creatorInboxId opts) (o_privateKey opts)
     = unpackConversationId (packConversationId (o_conversationId opts))"
proof -
  obtain ct where ct:
    "encryptConversationToken L nonce (o_conversationId opts) (o_creatorInboxId opts)
       (o_privateKey opts) = Inr (FORMAT_VERSION # nonce @ ct)"
    "length ct = length (packConversationId (o_conversationId opts)) + 16"
    "decryptConversationToken L (FORMAT_VERSION # nonce @ ct) (o_creatorInboxId opts)
       (o_privateKey opts) = unpackConversationId (packConversationId (o_conversationId opts))"
    by (rule token_round_trip [OF libs(2,3) nonce])
  define token where "token = FORMAT_VERSION # nonce @ ct"
  have ltok: "length token \<le> length (o_conversationId opts) + 33"
    using ct(2) nonce length_packConversationId [of "o_conversationId opts"]
    by (simp add: token_def)
  note hx = bytesToHex_hexToBytes [OF inbox]
  define payload where "payload =
    \<lparr> ip_conversationToken = token,
      ip_creatorInboxId = hex_pairs (o_creatorInboxId opts),
      ip_tag = o_inviteTag opts,
      ip_name = o_name opts,
      ip_description = o_description opts,
      ip_imageURL = o_imageURL opts,
      ip_conversationExpiresAtUnix =
        map_option (\<lambda>ms. ms div 1000) (o_conversationExpiresAt opts),
      ip_expiresAtUnix = map_option (\<lambda>ms. ms div 1000) (o_expiresAt opts),
      ip_expiresAfterUse = (case o_expiresAfterUse opts of None \<Rightarrow> False | Some b \<Rightarrow> b) \<rparr>"
  define pb where "pb = encodeInvitePayload payload"
  obtain sig where sig:
    "signWithRecovery L (hashSha256 L pb) (o_privateKey opts) = Inr sig"
    "length sig = 65"
    "verifyInviteWithPrivateKey L \<lparr> si_payload = pb, si_signature = sig \<rparr> (o_privateKey opts)
     = Inr True"
    by (rule sign_verify [OF libs(4)])
  define si where "si = \<lparr> si_payload = pb, si_signature = sig \<rparr>"
  define d where "d = encodeSignedInvite si"
  define slug where "slug = encodeToSlug L d"
  have create: "createInviteSlug L nonce opts = Inr slug"
    using sig(1)
    by (simp add: createInviteSlug_def ct(1) hx(1) Let_def slug_def d_def si_def pb_def
        payload_def token_def)
  have chars: "\<forall>c \<in> set slug. slug_char c"
    by (auto simp: slug_def dest: slug_char_encodeToSlug)
  have fields: "length (ip_conversationToken payload) + length (ip_creatorInboxId payload)
      + length (ip_tag payload) + opt_length (ip_name payload)
      + opt_length (ip_description payload) + opt_length (ip_imageURL payload)
      \<le> options_size opts + 33"
    using ltok by (simp add: payload_def options_size_def length_hex_pairs)
  have lpb: "length pb \<le> options_size opts + 125"
    using length_encodeInvitePayload [of payload] fields by (simp add: pb_def)
  have ld: "length d \<le> options_size opts + 210"
    using length_encodeSignedInvite [of si] sig(2) lpb by (simp add: d_def si_def)
  have dz: "decompress L (compressIfSmaller L d) = Inr d"
  proof (rule decompress_compressIfSmaller)
    show "length d \<le> MAX_DECOMPRESSED_SIZE"
      using ld size by (simp add: MAX_DECOMPRESSED_SIZE_def)
    show "pako_inflate L c = Some d" if "pako_deflate L d = Some c" for c
      using libs(1) that by (simp add: zlib_ok_def)
    show "compressIfSmaller L d \<noteq> d \<or> d = [] \<or> hd d \<noteq> COMPRESSION_MARKER"
      using hd_encodeSignedInvite [of si] by (simp add: d_def COMPRESSION_MARKER_def)
  qed
  have dfs: "decodeFromSlug L (parseInviteCode L slug) = Inr d"
    by (simp add: slug_def decodeFromSlug_encodeToSlug dz)
  have dsi: "decodeSignedInvite d = Inr si"
    unfolding d_def
    using sig(2) lpb size
    by (intro decodeSignedInvite_encode) (simp_all add: si_def)
  have b1: "length (ip_conversationToken payload) < 2 ^ 32"
    and b2: "length (ip_creatorInboxId payload) < 2 ^ 32"
    and b3: "length (ip_tag payload) < 2 ^ 32"
    and b4: "opt_length (ip_name payload) < 2 ^ 32"
    and b5: "opt_length (ip_description payload) < 2 ^ 32"
    and b6: "opt_length (ip_imageURL payload) < 2 ^ 32"
    using fields size by simp_all
  have dp: "decodeInvitePayload pb =
    Inr \<lparr> ip_conversationToken = token,
          ip_creatorInboxId = hex_pairs (o_creatorInboxId opts),
          ip_tag = o_inviteTag opts,
          ip_name = read_back_string (o_name opts),
          ip_description = read_back_string (o_description opts),
          ip_imageURL = read_back_string (o_imageURL opts),
          ip_conversationExpiresAtUnix = expiry_seconds (o_conversationExpiresAt opts),
          ip_expiresAtUnix = expiry_seconds (o_expiresAt opts),
          ip_expiresAfterUse = (o_expiresAfterUse opts = Some True) \<rparr>"
  proof -
    have "decodeInvitePayload (encodeInvitePayload payload) =
      Inr \<lparr> ip_conversationToken = ip_conversationToken payload,
            ip_creatorInboxId = ip_creatorInboxId payload,
            ip_tag = ip_tag payload,
            ip_name = read_back_string (ip_name payload),
            ip_description = read_back_string (ip_description payload),
            ip_imageURL = read_back_string (ip_imageURL payload),
            ip_conversationExpiresAtUnix = read_back_long (ip_conversationExpiresAtUnix payload),
            ip_expiresAtUnix = read_back_long (ip_expiresAtUnix payload),
            ip_expiresAfterUse = ip_expiresAfterUse payload \<rparr>"
      using b1 b2 b3 b4 b5 b6
      by (intro decodeInvitePayload_encode) (simp_all add: opt_length_def)
    moreover have "(case o_expiresAfterUse opts of None \<Rightarrow> False | Some b \<Rightarrow> b)
                   = (o_expiresAfterUse opts = Some True)"
      by (cases "o_expiresAfterUse opts") auto
    ultimately show ?thesis
      by (simp add: pb_def payload_def read_back_long_seconds [OF dates(1)]
          read_back_long_seconds [OF dates(2)])
  qed
  have parse: "parseInviteSlug L now_ms slug =
       Inr \<lparr> pi_signedInvite = si,
             pi_payload =
               \<lparr> ip_conversationToken = token,
                 ip_creatorInboxId = hex_pairs (o_creatorInboxId opts),
                 ip_tag = o_inviteTag opts,
                 ip_name = read_back_string (o_name opts),
                 ip_description = read_back_string (o_description opts),
                 ip_imageURL = read_back_string (o_imageURL opts),
                 ip_conversationExpiresAtUnix = expiry_seconds (o_conversationExpiresAt opts),
                 ip_expiresAtUnix = expiry_seconds (o_expiresAt opts),
                 ip_expiresAfterUse = (o_expiresAfterUse opts = Some True) \<rparr>,
             pi_creatorInboxId = o_creatorInboxId opts,
             pi_isExpired =
               (case expiry_seconds (o_expiresAt opts) of
                  None \<Rightarrow> False | Some t \<Rightarrow> t < now_ms div 1000),
             pi_isConversationExpired =
               (case expiry_seconds (o_conversationExpiresAt opts) of
                  None \<Rightarrow> False | Some t \<Rightarrow> t < now_ms div 1000) \<rparr>"
    using dp by (simp add: parseInviteSlug_def Let_def dfs dsi si_def hx(2))
  from create chars parse sig(3) [folded si_def] ct(3) [folded token_def]
  show thesis by (rule that)
qed

section \<open>An invite minted with the instance of the libraries\<close>

text \<open>
  The inputs on which the theorems are run: a key, a nonce, the options of an invite
  for a given conversation id, the slug minted from them, and a middleware with one
  handler that accepts every invite.
\<close>

definition demo_key :: bytes where
  "demo_key = replicate 32 1"

definition demo_nonce :: bytes where
  "demo_nonce = replicate 12 0"

definition demo_options :: "string \<Rightarrow> CreateInviteOptions" where
  "demo_options conversationId =
     \<lparr> o_conversationId = conversationId,
       o_inviteTag = ''tag0123456'',
       o_creatorInboxId = ''ab12'',
       o_privateKey = demo_key,
       o_name = Some [],
       o_description = None,
       o_imageURL = Some ''https://example.com/i.png'',
       o_expiresAt = Some 1000000,
       o_conversationExpiresAt = Some 2000000,
       o_expiresAfterUse = Some True \<rparr>"

definition demo_slug :: string where
  "demo_slug =
     (case createInviteSlug demo_libs demo_nonce (demo_options ''conv-1'') of
        Inl e \<Rightarrow> [] | Inr slug \<Rightarrow> slug)"

definition demo_agent :: XMTPAgent where
  "demo_agent =
     \<lparr> a_inboxId = ''ab12'', a_refreshConsentList = True,
       a_getConversationById = (\<lambda>c. Some True) \<rparr>"

definition demo_middleware :: ConvosMiddleware where
  "demo_middleware =
     \<lparr> mw_agent = demo_agent, mw_inboxId = ''ab12'', mw_privateKey = demo_key,
       mw_inviteBaseURL = ''https://dev.convos.org/v2'',
       mw_inviteHandlers = [\<lambda>c. ([Accept], False)] \<rparr>"

lemma read_back_string_eq:
  "read_back_string v = (if v = Some [] then None else v)"
  by (cases v) (simp_all add: read_back_string_def truthy_string_def)

lemma demo_create_parse:
  assumes "length c \<le> 1000"
  obtains slug si token where
    "createInviteSlug demo_libs demo_nonce (demo_options c) = Inr slug"
    "\<forall>c \<in> set slug. slug_char c"
    "parseInviteSlug demo_libs now_ms slug =
       Inr \<lparr> pi_signedInvite = si,
             pi_payload =
               \<lparr> ip_conversationToken = token,
                 ip_creatorInboxId = hex_pairs ''ab12'',
                 ip_tag = ''tag0123456'',
                 ip_name = None,
                 ip_description = None,
                 ip_imageURL = Some ''https://example.com/i.png'',
                 ip_conversationExpiresAtUnix = Some 2000,
                 ip_expiresAtUnix = Some 1000,
                 ip_expiresAfterUse = True \<rparr>,
             pi_creatorInboxId = ''ab12'',
             pi_isExpired = (1000 < now_ms div 1000),
             pi_isConversationExpired = (2000 < now_ms div 1000) \<rparr>"
    "verifyInviteWithPrivateKey demo_libs si demo_key = Inr True"
    "decryptConversationToken demo_libs token ''ab12'' demo_key
     = unpackConversationId (packConversationId c)"
proof -
  have k: "secp_ok demo_libs (o_privateKey (demo_options c))"
    by (rule demo_secp_ok) (simp_all add: demo_options_def demo_key_def)
  have n: "length demo_nonce = 12" by (simp add: demo_nonce_def)
  have i: "even (length (o_creatorInboxId (demo_options c)))"
    "\<forall>x \<in> set (o_creatorInboxId (demo_options c)). lower_hex x"
    by (simp_all add: demo_options_def lower_hex_def)
  have s: "options_size (demo_options c) \<le> 1000000"
    using assms by (simp add: options_size_def opt_length_def demo_options_def)
  have d: "date_ok (o_expiresAt (demo_options c))"
    "date_ok (o_conversationExpiresAt (demo_options c))"
    by (simp_all add: date_ok_def demo_options_def)
  obtain slug si token where r:
    "createInviteSlug demo_libs demo_nonce (demo_options c) = Inr slug"
    "\<forall>c \<in> set slug. slug_char c"
    "parseInviteSlug demo_libs now_ms slug =
       Inr \<lparr> pi_signedInvite = si,
             pi_payload =
               \<lparr> ip_conversationToken = token,
                 ip_creatorInboxId = hex_pairs (o_creatorInboxId (demo_options c)),
                 ip_tag = o_inviteTag (demo_options c),
                 ip_name = read_back_string (o_name (demo_options c)),
                 ip_description = read_back_string (o_description (demo_options c)),
                 ip_imageURL = read_back_string (o_imageURL (demo_options c)),
                 ip_conversationExpiresAtUnix =
                   expiry_seconds (o_conversationExpiresAt (demo_options c)),
                 ip_expiresAtUnix = expiry_seconds (o_expiresAt (demo_options c)),
                 ip_expiresAfterUse = (o_expiresAfterUse (demo_options c) = Some True) \<rparr>,
             pi_creatorInboxId = o_creatorInboxId (demo_options c),
             pi_isExpired =
               (case expiry_seconds (o_expiresAt (demo_options c)) of
                  None \<Rightarrow> False | Some t \<Rightarrow> t < now_ms div 1000),
             pi_isConversationExpired =
               (case expiry_seconds (o_conversationExpiresAt (demo_options c)) of
                  None \<Rightarrow> False | Some t \<Rightarrow> t < now_ms div 1000) \<rparr>"
    "verifyInviteWithPrivateKey demo_libs si (o_privateKey (demo_options c)) = Inr True"
    "decryptConversationToken demo_libs token (o_creatorInboxId (demo_options c))
       (o_privateKey (demo_options c))
     = unpackConversationId (packConversationId (o_conversationId (demo_options c)))"
    by (rule create_parse [OF demo_zlib_ok demo_aead_ok demo_hkdf_ok k n i s d])
  show thesis
    using r
    by (intro that [of slug si token])
       (simp_all add: demo_options_def read_back_string_eq expiry_seconds_def)
qed

lemma parseInviteSlug_empty:
  "parseInviteSlug L now_ms [] =
     Inr \<lparr> pi_signedInvite = \<lparr> si_payload = [], si_signature = [] \<rparr>,
           pi_payload =
             \<lparr> ip_conversationToken = [], ip_creatorInboxId = [], ip_tag = [],
               ip_name = None, ip_description = None, ip_imageURL = None,
               ip_conversationExpiresAtUnix = None, ip_expiresAtUnix = None,
               ip_expiresAfterUse = False \<rparr>,
           pi_creatorInboxId = [], pi_isExpired = False, pi_isConversationExpired = False \<rparr>"
  by (simp add: parseInviteSlug_def parseInviteCode_slug decodeFromSlug_def
      base64UrlDecode_def replace_char_def buffer_from_base64_def decompress_def
      decodeSignedInvite_def decodeInvitePayload_def decode_fields_done
      msg_bytes_def msg_string_def msg_long_def msg_bool_def field_last_def
      truthy_string_def nonzero_long_def bytesToHex_def)

lemma verify_empty_signature:
  "verifyInviteWithPrivateKey L \<lparr> si_payload = p, si_signature = [] \<rparr> k \<noteq> Inr True"
  by (auto simp: verifyInviteWithPrivateKey_def verifyInvite_def verifyInvite_try_def
      recoverPublicKey_def split: sum.splits)

section \<open>Decoding what encodeMetadata encodes\<close>

lemma length_enc_bytes_field_ge: "length v \<le> length (enc_bytes_field f v)"
  by (simp add: enc_bytes_field_def)

lemma length_enc_string_field_ge: "length v \<le> length (enc_string_field f v)"
  by (simp add: enc_string_field_def enc_bytes_field_def length_utf8_encode)

lemma length_concat_member:
  "x \<in> set xs \<Longrightarrow> length (f x) \<le> length (concat (map f xs))"
  by (induction xs) auto

lemma length_encodeConversationProfile_ge:
  "length (cp_inboxId p) \<le> length (encodeConversationProfile p)"
  "cp_name p = Some s \<Longrightarrow> length s \<le> length (encodeConversationProfile p)"
  "cp_image p = Some s \<Longrightarrow> length s \<le> length (encodeConversationProfile p)"
  using length_enc_bytes_field_ge [of "cp_inboxId p" 1] length_enc_string_field_ge [of s 2]
    length_enc_string_field_ge [of s 3]
  by (simp_all add: encodeConversationProfile_def enc_opt_def)

lemma length_encodeConversationMetadata_ge:
  "length (cm_tag m) \<le> length (encodeConversationMetadata m)"
  "p \<in> set (cm_profiles m) \<Longrightarrow>
   length (encodeConversationProfile p) \<le> length (encodeConversationMetadata m)"
  "cm_imageEncryptionKey m = Some k \<Longrightarrow> length k \<le> length (encodeConversationMetadata m)"
proof -
  show "length (cm_tag m) \<le> length (encodeConversationMetadata m)"
    using length_enc_string_field_ge [of "cm_tag m" 1]
    by (simp add: encodeConversationMetadata_def)
  show "length (encodeConversationProfile p) \<le> length (encodeConversationMetadata m)"
    if "p \<in> set (cm_profiles m)"
    using length_concat_member
      [OF that, of "\<lambda>p. enc_bytes_field 2 (encodeConversationProfile p)"]
      length_enc_bytes_field_ge [of "encodeConversationProfile p" 2]
    by (simp add: encodeConversationMetadata_def)
  show "length k \<le> length (encodeConversationMetadata m)"
    if "cm_imageEncryptionKey m = Some k"
    using length_enc_bytes_field_ge [of k 4] that
    by (simp add: encodeConversationMetadata_def enc_opt_def)
qed

lemma metadata_fits_small:
  assumes "length (encodeConversationMetadata m) \<le> MAX_DECOMPRESSED_SIZE"
  shows "metadata_fits m"
proof -
  note b = assms [unfolded MAX_DECOMPRESSED_SIZE_def]
  have p: "profile_fits p" if "p \<in> set (cm_profiles m)" for p
  proof -
    note l = length_encodeConversationMetadata_ge(2) [OF that]
    have n: "length s < 2 ^ 32" if "cp_name p = Some s" for s
      using length_encodeConversationProfile_ge(2) [OF that] l b by simp
    have i: "length s < 2 ^ 32" if "cp_image p = Some s" for s
      using length_encodeConversationProfile_ge(3) [OF that] l b by simp
    show ?thesis
      unfolding profile_fits_def
      using l b n i length_encodeConversationProfile_ge(1) [of p]
      by auto
  qed
  have k: "length k < 2 ^ 32" if "cm_imageEncryptionKey m = Some k" for k
    using length_encodeConversationMetadata_ge(3) [OF that] b by simp
  show ?thesis
    unfolding metadata_fits_def
    using p k b length_encodeConversationMetadata_ge(1) [of m]
    by auto
qed

lemma decodeMetadata_encodeMetadata:
  assumes "zlib_ok L" "length (encodeConversationMetadata m) \<le> MAX_DECOMPRESSED_SIZE"
  shows "decodeMetadata L (encodeMetadata L m) = Inr (read_back_metadata m)"
proof -
  have "decompress L (compressIfSmaller L (encodeConversationMetadata m))
        = Inr (encodeConversationMetadata m)"
  proof (rule decompress_compressIfSmaller [OF assms(2)])
    show "pako_inflate L c = Some (encodeConversationMetadata m)"
      if "pako_deflate L (encodeConversationMetadata m) = Some c" for c
      using assms(1) that by (simp add: zlib_ok_def)
    show "compressIfSmaller L (encodeConversationMetadata m) \<noteq> encodeConversationMetadata m
          \<or> encodeConversationMetadata m = []
          \<or> hd (encodeConversationMetadata m) \<noteq> COMPRESSION_MARKER"
      using hd_encodeConversationMetadata [of m] by (simp add: COMPRESSION_MARKER_def)
  qed
  then show ?thesis
    by (simp add: decodeMetadata_def encodeMetadata_def base64UrlDecode_encode
        decodeConversationMetadata_encode [OF metadata_fits_small [OF assms(2)]])
qed

lemma length_encodeConversationProfile:
  "length (encodeConversationProfile p)
   \<le> length (cp_inboxId p) + opt_length (cp_name p) + opt_length (cp_image p) + 30"
  using length_enc_bytes_field [of 1 "cp_inboxId p"]
    length_enc_opt_string [of 2 "cp_name p"] length_enc_opt_string [of 3 "cp_image p"]
  by (simp add: encodeConversationProfile_def)

definition profile_size :: "ConversationProfile \<Rightarrow> nat" where
  "profile_size p =
     length (cp_inboxId p) + opt_length (cp_name p) + opt_length (cp_image p) + 40"

lemma length_encoded_profiles:
  "length (concat (map (\<lambda>p. enc_bytes_field 2 (encodeConversationProfile p)) ps))
   \<le> sum_list (map profile_size ps)"
proof (induction ps)
  case Nil
  then show ?case by simp
next
  case (Cons p ps)
  with length_enc_bytes_field [of 2 "encodeConversationProfile p"]
    length_encodeConversationProfile [of p]
  show ?case by (simp add: profile_size_def)
qed

lemma length_encodeConversationMetadata:
  "length (encodeConversationMetadata m)
   \<le> length (cm_tag m) + sum_list (map profile_size (cm_profiles m))
     + opt_length (cm_imageEncryptionKey m) + 33"
  using length_enc_string_field [of 1 "cm_tag m"] length_encoded_profiles [of "cm_profiles m"]
    length_enc_opt_sfixed64 [of 3 "truthy_bigint (cm_expiresAtUnix m)"]
    length_enc_opt_bytes [of 4 "cm_imageEncryptionKey m"]
  by (simp add: encodeConversationMetadata_def)

section \<open>C6: decompress after compressIfSmaller\<close>

lemma decompress_marker_clash:
  "pako_inflate L [] \<noteq> Some [0x78] \<Longrightarrow>
   decompress L (compressIfSmaller L [0x78]) \<noteq> Inr [0x78]"
  by (auto simp: compressIfSmaller_def decompress_def MIN_SIZE_FOR_COMPRESSION_def
      COMPRESSION_MARKER_def split: option.splits)

text \<open>
  C6, as stated, fails: the one-byte input \<open>0x78\<close> is shorter than 100 bytes, so
  \<open>compressIfSmaller\<close> returns it unchanged; \<open>decompress\<close> sees the marker and hands
  the empty rest to the inflater. With the instance of the libraries the result is a
  throw; by \<open>decompress_marker_clash\<close> it differs from the input for every inflater
  that does not inflate the empty input to the byte \<open>0x78\<close>.
\<close>

theorem C6_counterexample:
  "decompress demo_libs (compressIfSmaller demo_libs [0x78]) \<noteq> Inr [0x78]"
  by (simp add: compressIfSmaller_def decompress_def MIN_SIZE_FOR_COMPRESSION_def
      COMPRESSION_MARKER_def demo_libs_def)

text \<open>
  C6, amended: for every byte string \<open>x\<close> of at most 1 MiB on which the inflater
  inverts the deflater, and which \<open>compressIfSmaller\<close> either compresses or which is
  empty or does not begin with the marker \<open>0x78\<close>,
  \<open>decompress (compressIfSmaller x)\<close> returns \<open>x\<close>.
\<close>

theorem C6_decompress_compressIfSmaller:
  assumes "length x \<le> 1048576"
    and "\<forall>c. pako_deflate L x = Some c \<longrightarrow> pako_inflate L c = Some x"
    and "compressIfSmaller L x \<noteq> x \<or> x = [] \<or> hd x \<noteq> 0x78"
  shows "decompress L (compressIfSmaller L x) = Inr x"
  using assms
  by (intro decompress_compressIfSmaller)
     (auto simp: MAX_DECOMPRESSED_SIZE_def COMPRESSION_MARKER_def)

lemma demo_deflate_zeros: "demo_deflate (replicate 200 0) = Some [1, 200]"
  by (simp add: demo_deflate_def)

theorem C6_witness:
  "decompress demo_libs (compressIfSmaller demo_libs (replicate 200 0)) = Inr (replicate 200 0)"
proof -
  have d: "pako_deflate demo_libs (replicate 200 0) = Some [1, 200]"
    by (simp add: demo_libs_def demo_deflate_zeros)
  have i: "pako_inflate demo_libs [1, 200] = Some (replicate 200 0)"
    by (simp add: demo_libs_def)
  have c: "compressIfSmaller demo_libs (replicate 200 0) = [0x78, 1, 200]"
    by (simp add: compressIfSmaller_def d MIN_SIZE_FOR_COMPRESSION_def COMPRESSION_MARKER_def)
  have ne: "compressIfSmaller demo_libs (replicate 200 0) \<noteq> replicate 200 0"
    unfolding c by (auto dest: arg_cong [where f = length])
  show ?thesis
    using C6_decompress_compressIfSmaller [of "replicate 200 0" demo_libs] d i ne by simp
qed

section \<open>C2: verifyInvite and verifyInviteWithPrivateKey\<close>

text \<open>
  \<open>constantTimeEqual\<close> decides equality, so \<open>verifyInvite\<close> returns \<open>true\<close> exactly
  when a key is recovered and its normal form is that of the expected key.
\<close>

lemma constantTimeEqual_fold_zero:
  "length a = length b \<Longrightarrow>
   (fold (\<lambda>(x, y) result. result OR (x XOR y)) (zip a b) (r :: byte) = 0)
   = (r = 0 \<and> a = b)"
proof (induction a b arbitrary: r rule: list_induct2)
  case Nil
  then show ?case by simp
next
  case (Cons x xs y ys)
  have "x = y" if "x XOR y = 0"
  proof -
    have "y = x XOR (x XOR y)" by (simp add: xor.assoc [symmetric])
    with that show ?thesis by simp
  qed
  then have "(r OR (x XOR y) = 0) = (r = 0 \<and> x = y)"
    by (auto simp: or_eq_0_iff)
  with Cons.IH [of "r OR (x XOR y)"] show ?case by auto
qed

lemma constantTimeEqual_iff: "constantTimeEqual a b = (a = b)"
  by (auto simp: constantTimeEqual_def constantTimeEqual_fold_zero)

lemma verifyInvite_characterised:
  "verifyInvite L s pk =
     Inr (\<exists>r a. recoverPublicKey L (hashSha256 L (si_payload s)) (si_signature s) = Inr r
               \<and> normalizePublicKey L r = Inr a \<and> normalizePublicKey L pk = Inr a)"
  by (auto simp: verifyInvite_def verifyInvite_try_def Let_def constantTimeEqual_iff
      split: sum.splits)

lemma demo_recover_twos:
  "secp_recover demo_libs (sha256 demo_libs []) (take 64 (replicate 64 2 @ [0]))
     (unat ((replicate 64 2 @ [0 :: byte]) ! 64))
   = Some (4 # replicate 64 2)"
proof -
  have "replicate (Suc 31) (0 :: byte) = 0 # replicate 31 0" by (rule replicate_Suc)
  then have h: "demo_sha256 [] = replicate 32 0"
    by (simp add: demo_sha256_def replicate_append_same)
  have p: "pad32 (replicate 32 0) = replicate 32 0"
    by (simp add: pad32_def)
  have x: "xor_bytes (replicate 32 0) (replicate 32 2) = replicate 32 2"
    by (simp add: xor_bytes_def)
  have t: "take 64 (replicate 64 2 @ [0 :: byte]) = replicate 64 2" by simp
  have n: "(replicate 64 2 @ [0 :: byte]) ! 64 = 0" by (simp add: nth_append)
  have d: "drop 32 (replicate 64 (2 :: byte)) = replicate 32 2"
    "take 32 (replicate 64 (2 :: byte)) = replicate 32 2" by simp_all
  have r: "replicate 32 (2 :: byte) @ replicate 32 2 = replicate 64 2"
    by (simp add: replicate_add [symmetric])
  show ?thesis
    unfolding t n
    by (simp add: demo_libs_def demo_recover_def h p x d r)
qed

text \<open>
  C2, as stated, fails for \<open>verifyInviteWithPrivateKey\<close>: it calls \<open>getPublicKey\<close>
  before \<open>verifyInvite\<close> and outside its \<open>try\<close>, so a private key that the curve
  library rejects makes it throw. The empty key is such a key.
\<close>

theorem C2_counterexample:
  "verifyInviteWithPrivateKey demo_libs \<lparr> si_payload = [], si_signature = [] \<rparr> []
   = Inl LibraryError"
  by (simp add: verifyInviteWithPrivateKey_def getPublicKey_def demo_libs_def
      demo_getPublicKey_def)

text \<open>
  C2, amended: \<open>verifyInvite\<close> never throws. It returns \<open>true\<close> exactly when
  \<open>recoverPublicKey\<close> returns a key for the hash of the payload and the signature and
  that key and the expected key have the same normal form; in every other case,
  whatever the exception, it returns \<open>false\<close>. So it returns \<open>false\<close> for a
  signature whose length is not 65, for a recovery byte greater than 3, when the
  library recovers no key, and when the recovered key differs from the expected one,
  which is what a tampered payload or signature leads to; for keys of 65 bytes the
  result says whether the recovered key is the expected key.
  \<open>verifyInviteWithPrivateKey\<close> returns the same for the public key the library
  derives from the private key, and throws when the library rejects the private key.
\<close>

theorem C2_verifyInvite_never_throws:
  "verifyInvite L s pk =
     Inr (\<exists>r a. recoverPublicKey L (hashSha256 L (si_payload s)) (si_signature s) = Inr r
               \<and> normalizePublicKey L r = Inr a \<and> normalizePublicKey L pk = Inr a)
   \<and> (length (si_signature s) \<noteq> 65 \<or> 3 < unat (si_signature s ! 64)
        \<longrightarrow> verifyInvite L s pk = Inr False)
   \<and> (secp_recover L (sha256 L (si_payload s)) (take 64 (si_signature s))
          (unat (si_signature s ! 64)) = None
        \<longrightarrow> verifyInvite L s pk = Inr False)
   \<and> (\<forall>r a b. recoverPublicKey L (hashSha256 L (si_payload s)) (si_signature s) = Inr r
          \<and> normalizePublicKey L r = Inr a \<and> normalizePublicKey L pk = Inr b \<and> a \<noteq> b
        \<longrightarrow> verifyInvite L s pk = Inr False)
   \<and> (\<forall>r. length (si_signature s) = 65 \<and> unat (si_signature s ! 64) \<le> 3
          \<and> secp_recover L (sha256 L (si_payload s)) (take 64 (si_signature s))
               (unat (si_signature s ! 64)) = Some r
          \<and> length r = 65 \<and> length pk = 65
        \<longrightarrow> verifyInvite L s pk = Inr (r = pk))
   \<and> verifyInviteWithPrivateKey L s priv =
       (case secp_getPublicKey L priv of
          None \<Rightarrow> Inl LibraryError
        | Some k \<Rightarrow>
            Inr (\<exists>r a. recoverPublicKey L (hashSha256 L (si_payload s)) (si_signature s) = Inr r
                      \<and> normalizePublicKey L r = Inr a \<and> normalizePublicKey L k = Inr a))"
proof -
  note c = verifyInvite_characterised
  have 2: "verifyInvite L s pk = Inr False"
    if "length (si_signature s) \<noteq> 65 \<or> 3 < unat (si_signature s ! 64)"
    using that by (auto simp: c recoverPublicKey_def Let_def)
  have 3: "verifyInvite L s pk = Inr False"
    if "secp_recover L (sha256 L (si_payload s)) (take 64 (si_signature s))
          (unat (si_signature s ! 64)) = None"
    using that by (auto simp: c recoverPublicKey_def hashSha256_def Let_def)
  have 4: "verifyInvite L s pk = Inr False"
    if "recoverPublicKey L (hashSha256 L (si_payload s)) (si_signature s) = Inr r
          \<and> normalizePublicKey L r = Inr a \<and> normalizePublicKey L pk = Inr b \<and> a \<noteq> b"
    for r a b
    using that by (auto simp: c)
  have 5: "verifyInvite L s pk = Inr (r = pk)"
    if "length (si_signature s) = 65 \<and> unat (si_signature s ! 64) \<le> 3
          \<and> secp_recover L (sha256 L (si_payload s)) (take 64 (si_signature s))
               (unat (si_signature s ! 64)) = Some r
          \<and> length r = 65 \<and> length pk = 65"
    for r
    using that
    by (auto simp: c recoverPublicKey_def hashSha256_def normalizePublicKey_def Let_def)
  have 6: "verifyInviteWithPrivateKey L s priv =
       (case secp_getPublicKey L priv of
          None \<Rightarrow> Inl LibraryError
        | Some k \<Rightarrow>
            Inr (\<exists>r a. recoverPublicKey L (hashSha256 L (si_payload s)) (si_signature s) = Inr r
                      \<and> normalizePublicKey L r = Inr a \<and> normalizePublicKey L k = Inr a))"
    by (simp add: verifyInviteWithPrivateKey_def getPublicKey_def c split: option.splits)
  show ?thesis
    by (intro conjI allI impI; (rule c 6 | erule 2 3 4 5))
qed

theorem C2_witness:
  "verifyInvite demo_libs \<lparr> si_payload = [], si_signature = replicate 64 2 @ [0] \<rparr>
     (4 # replicate 64 1) = Inr False
   \<and> verifyInvite demo_libs \<lparr> si_payload = [], si_signature = replicate 64 2 @ [0] \<rparr>
       (4 # replicate 64 2) = Inr True
   \<and> verifyInvite demo_libs \<lparr> si_payload = [], si_signature = replicate 64 2 \<rparr>
       (4 # replicate 64 2) = Inr False"
proof -
  let ?s = "\<lparr> si_payload = [], si_signature = replicate 64 2 @ [0 :: byte] \<rparr>"
  have h: "length (si_signature ?s) = 65 \<and> unat (si_signature ?s ! 64) \<le> 3
          \<and> secp_recover demo_libs (sha256 demo_libs (si_payload ?s))
               (take 64 (si_signature ?s)) (unat (si_signature ?s ! 64))
             = Some (4 # replicate 64 2)
          \<and> length (4 # replicate 64 (2 :: byte)) = 65"
    using demo_recover_twos by (simp add: nth_append)
  have a: "verifyInvite demo_libs ?s (4 # replicate 64 1) = Inr False"
    using C2_verifyInvite_never_throws [of demo_libs ?s "4 # replicate 64 1" "[]",
        THEN conjunct2, THEN conjunct2, THEN conjunct2, THEN conjunct2, THEN conjunct1,
        rule_format, of "4 # replicate 64 2"] h
    by simp
  have b: "verifyInvite demo_libs ?s (4 # replicate 64 2) = Inr True"
    using C2_verifyInvite_never_throws [of demo_libs ?s "4 # replicate 64 2" "[]",
        THEN conjunct2, THEN conjunct2, THEN conjunct2, THEN conjunct2, THEN conjunct1,
        rule_format, of "4 # replicate 64 2"] h
    by simp
  have "length (si_signature \<lparr> si_payload = [], si_signature = replicate 64 (2 :: byte) \<rparr>) \<noteq> 65"
    by simp
  with C2_verifyInvite_never_throws
    [of demo_libs "\<lparr> si_payload = [], si_signature = replicate 64 2 \<rparr>" "4 # replicate 64 2" "[]",
     THEN conjunct2, THEN conjunct1]
  have c: "verifyInvite demo_libs \<lparr> si_payload = [], si_signature = replicate 64 2 \<rparr>
       (4 # replicate 64 2) = Inr False"
    by simp
  from a b c show ?thesis by simp
qed

section \<open>C7: a zero expiry on the wire\<close>

lemma decodeInvitePayload_expiry_nonzero:
  assumes "decodeInvitePayload bs = Inr p"
  shows "ip_expiresAtUnix p \<noteq> Some 0" "ip_conversationExpiresAtUnix p \<noteq> Some 0"
  using assms
  by (auto simp: decodeInvitePayload_def nonzero_long_def split: option.splits if_splits)

lemma decodeInvitePayload_zero_expiry:
  "decodeInvitePayload (enc_sfixed64_field 7 0 @ enc_sfixed64_field 8 0)
   = decodeInvitePayload []"
  by (simp add: decodeInvitePayload_def InvitePayload_schema_def decode_fields_sfixed64
      decode_fields_sfixed64 [where rest = "[]", simplified] decode_fields_done
      msg_bytes_def msg_string_def msg_long_def msg_bool_def field_last_def
      nonzero_long_def wrap64_id)

lemma le_bytes_zero: "le_bytes n 0 = replicate n 0"
  by (induction n) simp_all

lemma zero_expiry_wire: "enc_sfixed64_field 3 0 = [0x19, 0, 0, 0, 0, 0, 0, 0, 0]"
proof -
  have "replicate 8 (0 :: byte) = [0, 0, 0, 0, 0, 0, 0, 0]"
    by (simp add: eval_nat_numeral)
  then show ?thesis
    by (simp add: enc_sfixed64_field_def enc_tag_def write_uint32_def varint_bytes.simps
        le_bytes_zero)
qed

text \<open>
  C7 holds of \<open>decodeInvitePayload\<close> (\<open>decodeInvitePayload_expiry_nonzero\<close>) and fails
  of \<open>decodeConversationMetadata\<close>: for the nine bytes that carry field 3,
  \<open>expires_at_unix\<close>, with the value 0, it returns the expiry \<open>0n\<close>, not \<open>undefined\<close>.
\<close>

theorem C7_metadata_zero_expiry_is_set:
  "decodeConversationMetadata [0x19, 0, 0, 0, 0, 0, 0, 0, 0]
   = Inr \<lparr> cm_tag = [], cm_profiles = [], cm_expiresAtUnix = Some 0,
           cm_imageEncryptionKey = Some [] \<rparr>"
proof -
  have "decode_metadata_fields (enc_sfixed64_field 3 0) [] = Some [(3, WLong 0)]"
    using decode_metadata_sfixed64 [of 0 "[]" "[]"]
    by (simp add: decode_metadata_fields_done wrap64_id)
  then show ?thesis
    by (simp add: decodeConversationMetadata_def zero_expiry_wire msg_string_def
        msg_long_def msg_bytes_def msg_repeated_def field_last_def)
qed

section \<open>C8: the base URL of invite URLs\<close>

lemma getInviteBaseURL_env:
  "getInviteBaseURL (Some ''dev'') = ''https://dev.convos.org/v2''"
  "getInviteBaseURL (Some ''local'') = ''https://dev.convos.org/v2''"
  "getInviteBaseURL (Some ''production'') = ''https://popup.convos.org/v2''"
  by (simp_all add: getInviteBaseURL_def)

lemma generateInviteURL_base:
  "generateInviteURL slug (Some b) = b @ ''?i='' @ encodeURIComponent slug"
  by (simp add: generateInviteURL_def)

lemma ConvosMiddleware_create_env:
  assumes "ConvosMiddleware_create process_env agent options = Inr mw"
    "co_inviteBaseURL options = None"
  shows "mw_inviteBaseURL mw = getInviteBaseURL (co_env options)"
  using assms by (auto simp: ConvosMiddleware_create_def split: sum.splits)

text \<open>
  C8 holds of \<open>getInviteBaseURL\<close>, of \<open>generateInviteURL\<close> and of the constructor
  compiled in \<open>dist\<close> (\<open>ConvosMiddleware_create_env\<close>). The constructor written in
  \<open>src/middleware/convos-middleware.ts\<close> does not read the environment: with no
  override and the environment \<open>dev\<close> its base URL is that of production.
\<close>

theorem C8_ts_constructor_ignores_env:
  "ConvosMiddleware_create_ts process_env agent
     \<lparr> co_privateKey = Some (KeyBytes k), co_inviteBaseURL = None, co_env = Some ''dev'' \<rparr>
   = Inr \<lparr> mw_agent = agent, mw_inboxId = a_inboxId agent, mw_privateKey = k,
           mw_inviteBaseURL = ''https://popup.convos.org/v2'', mw_inviteHandlers = [] \<rparr>"
  by (simp add: ConvosMiddleware_create_ts_def constructor_privateKey_def
      normalizePrivateKey_def)

section \<open>C1: parsing, verifying and decrypting a minted invite\<close>

text \<open>
  C1, as stated, fails for the empty conversation id. \<open>packConversationId\<close> writes it
  as the type byte and the length byte 0; \<open>unpackConversationId\<close> takes a length
  byte 0 for the sentinel of the long form and throws, since the two length bytes of
  that form are missing. The invite is minted and parsed, and
  \<open>decryptInviteConversationId\<close> throws.
\<close>

theorem C1_counterexample:
  "\<exists>slug parsed.
     createInviteSlug demo_libs demo_nonce (demo_options []) = Inr slug
     \<and> parseInviteSlug demo_libs 0 slug = Inr parsed
     \<and> decryptInviteConversationId demo_libs parsed demo_key
         = Inl InvalidPackedConversationId"
proof -
  obtain slug si token where r:
    "createInviteSlug demo_libs demo_nonce (demo_options []) = Inr slug"
    "parseInviteSlug demo_libs 0 slug =
       Inr \<lparr> pi_signedInvite = si,
             pi_payload =
               \<lparr> ip_conversationToken = token,
                 ip_creatorInboxId = hex_pairs ''ab12'',
                 ip_tag = ''tag0123456'',
                 ip_name = None,
                 ip_description = None,
                 ip_imageURL = Some ''https://example.com/i.png'',
                 ip_conversationExpiresAtUnix = Some 2000,
                 ip_expiresAtUnix = Some 1000,
                 ip_expiresAfterUse = True \<rparr>,
             pi_creatorInboxId = ''ab12'',
             pi_isExpired = (1000 < (0 :: int) div 1000),
             pi_isConversationExpired = (2000 < (0 :: int) div 1000) \<rparr>"
    "decryptConversationToken demo_libs token ''ab12'' demo_key
     = unpackConversationId (packConversationId [])"
    by (rule demo_create_parse [of "[]" 0]) simp_all
  have u: "unpackConversationId (packConversationId []) = Inl InvalidPackedConversationId"
    by (simp add: packConversationId_def unpackConversationId_def UUID_PATTERN_test_def
        utf8_encode_def TYPE_STRING_def TYPE_UUID_def)
  show ?thesis
    by (intro exI conjI, rule r(1), rule r(2))
       (simp add: decryptInviteConversationId_def r(3) u)
qed

text \<open>
  C1, amended. Let the libraries meet their contracts for the private key, the nonce
  have 12 bytes, the inbox id be lowercase hexadecimal of even length, the
  conversation id be UUID-shaped, or have between 1 and 65535 bytes and be a string
  that \<open>TextDecoder\<close> returns as it is (every ASCII string is one,
  \<open>TextDecoder_decode_ascii\<close>; a string that begins with U+FEFF is none,
  \<open>TextDecoder_decode_bom\<close>), the strings of the options have at most 1000000 bytes
  together, and the dates be valid. Then
  \<open>createInviteSlug\<close> returns a slug and \<open>parseInviteSlug\<close> parses it; the parsed
  payload has the tag and the inbox id of the options and \<open>expiresAfterUse\<close> as
  given; each expiry is the date in whole seconds, or absent when the date is absent
  or its seconds are 0, and the flags \<open>isExpired\<close> and \<open>isConversationExpired\<close> say
  whether that expiry is before the clock; \<open>verifyInviteWithPrivateKey\<close> returns
  \<open>true\<close>; and \<open>decryptInviteConversationId\<close> returns the conversation id, in lower
  case when it is UUID-shaped.
\<close>

theorem C1_invite_round_trip:
  assumes "zlib_ok L" "aead_ok L" "hkdf_ok L" "secp_ok L (o_privateKey opts)"
    and "length nonce = 12"
    and "even (length (o_creatorInboxId opts))"
    and "\<forall>c \<in> set (o_creatorInboxId opts). lower_hex c"
    and "UUID_PATTERN_test (o_conversationId opts)
         \<or> (1 \<le> length (o_conversationId opts) \<and> length (o_conversationId opts) \<le> 65535
            \<and> TextDecoder_decode (utf8_encode (o_conversationId opts)) = o_conversationId opts)"
    and "options_size opts \<le> 1000000"
    and "date_ok (o_expiresAt opts)" "date_ok (o_conversationExpiresAt opts)"
  shows "\<exists>slug parsed.
     createInviteSlug L nonce opts = Inr slug
     \<and> parseInviteSlug L now_ms slug = Inr parsed
     \<and> ip_tag (pi_payload parsed) = o_inviteTag opts
     \<and> ip_creatorInboxId (pi_payload parsed) = hex_pairs (o_creatorInboxId opts)
     \<and> pi_creatorInboxId parsed = o_creatorInboxId opts
     \<and> ip_expiresAfterUse (pi_payload parsed) = (o_expiresAfterUse opts = Some True)
     \<and> ip_expiresAtUnix (pi_payload parsed) = expiry_seconds (o_expiresAt opts)
     \<and> ip_conversationExpiresAtUnix (pi_payload parsed)
         = expiry_seconds (o_conversationExpiresAt opts)
     \<and> pi_isExpired parsed
         = (case expiry_seconds (o_expiresAt opts) of
              None \<Rightarrow> False | Some t \<Rightarrow> t < now_ms div 1000)
     \<and> pi_isConversationExpired parsed
         = (case expiry_seconds (o_conversationExpiresAt opts) of
              None \<Rightarrow> False | Some t \<Rightarrow> t < now_ms div 1000)
     \<and> verifyInviteWithPrivateKey L (pi_signedInvite parsed) (o_privateKey opts) = Inr True
     \<and> decryptInviteConversationId L parsed (o_privateKey opts)
         = Inr (canonical_conversation_id (o_conversationId opts))"
proof -
  obtain slug si token where r:
    "createInviteSlug L nonce opts = Inr slug"
    "parseInviteSlug L now_ms slug =
       Inr \<lparr> pi_signedInvite = si,
             pi_payload =
               \<lparr> ip_conversationToken = token,
                 ip_creatorInboxId = hex_pairs (o_creatorInboxId opts),
                 ip_tag = o_inviteTag opts,
                 ip_name = read_back_string (o_name opts),
                 ip_description = read_back_string (o_description opts),
                 ip_imageURL = read_back_string (o_imageURL opts),
                 ip_conversationExpiresAtUnix = expiry_seconds (o_conversationExpiresAt opts),
                 ip_expiresAtUnix = expiry_seconds (o_expiresAt opts),
                 ip_expiresAfterUse = (o_expiresAfterUse opts = Some True) \<rparr>,
             pi_creatorInboxId = o_creatorInboxId opts,
             pi_isExpired =
               (case expiry_seconds (o_expiresAt opts) of
                  None \<Rightarrow> False | Some t \<Rightarrow> t < now_ms div 1000),
             pi_isConversationExpired =
               (case expiry_seconds (o_conversationExpiresAt opts) of
                  None \<Rightarrow> False | Some t \<Rightarrow> t < now_ms div 1000) \<rparr>"
    "verifyInviteWithPrivateKey L si (o_privateKey opts) = Inr True"
    "decryptConversationToken L token (o_creatorInboxId opts) (o_privateKey opts)
     = unpackConversationId (packConversationId (o_conversationId opts))"
    using create_parse [OF assms(1-7) assms(9-11), of now_ms] by metis
  note u = unpack_pack_conversation_id [OF assms(8)]
  show ?thesis
    by (intro exI conjI, rule r(1), rule r(2))
       (simp_all add: decryptInviteConversationId_def r(3) r(4) u)
qed

theorem C1_witness:
  "\<exists>slug parsed.
     createInviteSlug demo_libs demo_nonce (demo_options ''conv-1'') = Inr slug
     \<and> parseInviteSlug demo_libs 1500000 slug = Inr parsed
     \<and> ip_tag (pi_payload parsed) = ''tag0123456''
     \<and> pi_creatorInboxId parsed = ''ab12''
     \<and> ip_expiresAfterUse (pi_payload parsed)
     \<and> ip_expiresAtUnix (pi_payload parsed) = Some 1000
     \<and> ip_conversationExpiresAtUnix (pi_payload parsed) = Some 2000
     \<and> pi_isExpired parsed
     \<and> \<not> pi_isConversationExpired parsed
     \<and> verifyInviteWithPrivateKey demo_libs (pi_signedInvite parsed) demo_key = Inr True
     \<and> decryptInviteConversationId demo_libs parsed demo_key = Inr ''conv-1''"
proof -
  have k: "secp_ok demo_libs (o_privateKey (demo_options ''conv-1''))"
    by (rule demo_secp_ok) (simp_all add: demo_options_def demo_key_def)
  have n: "length demo_nonce = 12" by (simp add: demo_nonce_def)
  have i: "even (length (o_creatorInboxId (demo_options ''conv-1'')))"
    "\<forall>x \<in> set (o_creatorInboxId (demo_options ''conv-1'')). lower_hex x"
    by (simp_all add: demo_options_def lower_hex_def)
  have c: "UUID_PATTERN_test (o_conversationId (demo_options ''conv-1''))
         \<or> (1 \<le> length (o_conversationId (demo_options ''conv-1''))
            \<and> length (o_conversationId (demo_options ''conv-1'')) \<le> 65535
            \<and> TextDecoder_decode (utf8_encode (o_conversationId (demo_options ''conv-1'')))
                = o_conversationId (demo_options ''conv-1''))"
    by (simp add: demo_options_def TextDecoder_decode_ascii)
  have s: "options_size (demo_options ''conv-1'') \<le> 1000000"
    by (simp add: options_size_def opt_length_def demo_options_def)
  have d: "date_ok (o_expiresAt (demo_options ''conv-1''))"
    "date_ok (o_conversationExpiresAt (demo_options ''conv-1''))"
    by (simp_all add: date_ok_def demo_options_def)
  have e: "canonical_conversation_id ''conv-1'' = ''conv-1''"
    by (simp add: canonical_conversation_id_def UUID_PATTERN_test_def)
  from C1_invite_round_trip
    [OF demo_zlib_ok demo_aead_ok demo_hkdf_ok k n i c s d, of 1500000]
  show ?thesis
    by (simp add: demo_options_def expiry_seconds_def e) blast
qed

section \<open>C3: a text that is no invite\<close>

lemma url_char_0: "url_char 0 = CHR ''A''"
proof -
  have "(of_char CHR ''A'' :: nat) = 65" by simp
  then have "char_of (65 :: nat) = CHR ''A''" by (metis char_of_char)
  then show ?thesis by (simp add: url_char_def b64_char_def)
qed

lemma decode_fields_zeros:
  "sch 0 = None \<Longrightarrow> decode_fields sch 0 (0 # replicate (2 * n) 0) acc = None"
proof (induction n)
  case 0
  then show ?case
    by (subst decode_fields.simps)
       (simp add: read_uint32_def skipType_def skip_plain_def)
next
  case (Suc n)
  then show ?case
    by (subst decode_fields.simps)
       (simp add: read_uint32_def skipType_def skip_plain_def)
qed

lemma b64_groups_zeros: "b64_groups (replicate (4 * n + 2) 0) = replicate (3 * n + 1) 0"
proof (induction n)
  case 0
  show ?case by (simp add: numeral_2_eq_2)
next
  case (Suc n)
  have a: "4 * Suc n + 2 = Suc (Suc (Suc (Suc (4 * n + 2))))" by simp
  have b: "3 * Suc n + 1 = Suc (Suc (Suc (3 * n + 1)))" by simp
  show ?case unfolding a b using Suc by simp
qed

lemma parseInviteSlug_A50:
  "parseInviteSlug L now_ms (replicate 50 CHR ''A'') = Inl ProtobufDecodeError"
proof -
  have t: "replicate 50 CHR ''A'' = map url_char (replicate (4 * 12 + 2) 0)"
    by (simp add: url_char_0)
  have sc: "\<forall>c \<in> set (replicate 50 CHR ''A''). slug_char c"
    using url_char_0 by (auto simp: slug_char_def intro!: exI [of _ 0])
  have z: "replicate (3 * 12 + 1) (0 :: byte) = 0 # replicate (2 * 18) 0"
  proof -
    have "replicate (Suc 36) (0 :: byte) = 0 # replicate 36 0" by (rule replicate_Suc)
    then show ?thesis by simp
  qed
  have "base64UrlDecode (replicate 50 CHR ''A'') = b64_groups (replicate (4 * 12 + 2) 0)"
    unfolding t by (rule base64UrlDecode_url_chars) simp
  then have b: "base64UrlDecode (replicate 50 CHR ''A'') = 0 # replicate (2 * 18) 0"
    by (simp only: b64_groups_zeros z)
  have f: "filter (\<lambda>c. c \<noteq> CHR ''*'') (replicate 50 CHR ''A'') = replicate 50 CHR ''A''"
    by simp
  have d: "decodeFromSlug L (replicate 50 CHR ''A'') = Inr (0 # replicate (2 * 18) 0)"
    unfolding decodeFromSlug_def f b
    by (simp add: decompress_def COMPRESSION_MARKER_def)
  have s: "decodeSignedInvite (0 # replicate (2 * 18) 0) = Inl ProtobufDecodeError"
  proof -
    have "decode_fields SignedInvite_schema 0 (0 # replicate (2 * 18) 0) [] = None"
      by (rule decode_fields_zeros) (simp add: SignedInvite_schema_def)
    then show ?thesis by (simp only: decodeSignedInvite_def option.case)
  qed
  show ?thesis
    unfolding parseInviteSlug_def parseInviteCode_slug [OF sc] Let_def d
    by (simp only: s sum.case)
qed

text \<open>
  C3. Let the text of a message from another inbox fail \<open>parseInviteSlug\<close>. If the
  trimmed text has at least 50 characters, all of them letters, digits, \<open>_\<close>, \<open>-\<close>
  or \<open>*\<close>, the middleware runs the block action and does not call the next handler:
  it refreshes the consent list and, when that resolves, blocks the sender.
  Otherwise it only calls the next handler. \<open>JoinRequestHandler.processMessage\<close>
  classifies the same way, as \<open>BlockSender\<close> or \<open>NotJoinRequest\<close>.
\<close>

theorem C3_malformed_slug:
  assumes "extractText (x_content ctx) = Some text"
    and "x_senderInboxId ctx \<noteq> mw_inboxId mw"
    and "x_senderInboxId ctx \<noteq> jr_inboxId h"
    and "parseInviteSlug L now_ms text = Inl e"
  shows "middleware L now_ms mw ctx =
           Inr (if 50 \<le> length (trim text) \<and> list_all slug_pattern_char (trim text)
                then blockSender (mw_agent mw) (x_senderInboxId ctx) else [Next])
       \<and> Next \<notin> set (blockSender (mw_agent mw) (x_senderInboxId ctx))
       \<and> (a_refreshConsentList (mw_agent mw) \<longrightarrow>
            blockSender (mw_agent mw) (x_senderInboxId ctx)
            = [RefreshConsentList, Block [x_senderInboxId ctx]])
       \<and> map_sum id (jo_result \<circ> fst) (processMessage L now_ms h text (x_senderInboxId ctx)) =
           Inr (if 50 \<le> length (trim text) \<and> list_all slug_pattern_char (trim text)
                then BlockSender else NotJoinRequest)"
proof -
  have ne: "text \<noteq> []"
    using assms(4) by (auto simp: parseInviteSlug_empty)
  have l: "looksLikeInviteSlug text
           = (50 \<le> length (trim text) \<and> list_all slug_pattern_char (trim text))"
    by (auto simp: looksLikeInviteSlug_def Let_def)
  have m: "middleware L now_ms mw ctx =
           Inr (if looksLikeInviteSlug text
                then blockSender (mw_agent mw) (x_senderInboxId ctx) else [Next])"
    using assms ne by (simp add: middleware_def handleMessage_def Let_def)
  have p: "map_sum id (jo_result \<circ> fst) (processMessage L now_ms h text (x_senderInboxId ctx)) =
           Inr (if looksLikeInviteSlug text then BlockSender else NotJoinRequest)"
    using assms by (simp add: processMessage_def outcome_def)
  show ?thesis
    unfolding m p l by (simp add: blockSender_def)
qed

theorem C3_witness:
  "middleware demo_libs 0 demo_middleware
     \<lparr> x_content = CString (replicate 50 CHR ''A''), x_senderInboxId = ''cd34'' \<rparr>
   = Inr [RefreshConsentList, Block [''cd34'']]"
proof -
  have sc: "\<forall>c \<in> set (replicate 50 CHR ''A''). slug_char c"
    using url_char_0 by (auto simp: slug_char_def intro!: exI [of _ 0])
  have t: "trim (replicate 50 CHR ''A'') = replicate 50 CHR ''A''"
    by (rule trim_slug [OF sc])
  have a: "list_all slug_pattern_char (replicate 50 CHR ''A'')"
    by (simp add: list_all_iff slug_pattern_char_def ascii_alpha_def)
  from C3_malformed_slug
    [of "\<lparr> x_content = CString (replicate 50 CHR ''A''), x_senderInboxId = ''cd34'' \<rparr>"
        "replicate 50 CHR ''A''" demo_middleware
        "\<lparr> jr_inboxId = ''ab12'', jr_privateKey = demo_key, jr_onJoinRequest = None,
           jr_onJoinError = True, jr_conversationExists = None \<rparr>"
        demo_libs 0 ProtobufDecodeError]
  show ?thesis
    by (simp add: extractText_def demo_middleware_def demo_agent_def parseInviteSlug_A50
        t a blockSender_def)
qed

section \<open>C4: an invite that is expired twice\<close>

text \<open>
  C4. Let a message from another inbox parse as an invite of this inbox whose
  signature verifies, with both \<open>isExpired\<close> and \<open>isConversationExpired\<close> set. Then
  the middleware makes exactly one call on the substrate, sending one
  \<open>ConversationExpired\<close> error with the tag of the invite on the DM conversation;
  no handler of the \<open>invite\<close> event runs, whatever handlers are registered, and the
  next handler of the chain is not called. \<open>JoinRequestHandler.processMessage\<close>
  reports one \<open>ConversationExpired\<close> error and passes it to \<open>onJoinError\<close> once.
\<close>

theorem C4_both_expired_one_error:
  assumes "extractText (x_content ctx) = Some text"
    and "x_senderInboxId ctx \<noteq> mw_inboxId mw"
    and "parseInviteSlug L now_ms text = Inr parsed"
    and "pi_creatorInboxId parsed = mw_inboxId mw"
    and "verifyInviteWithPrivateKey L (pi_signedInvite parsed) (mw_privateKey mw) = Inr True"
    and "pi_isExpired parsed" "pi_isConversationExpired parsed"
    and "jr_inboxId h = mw_inboxId mw" "jr_privateKey h = mw_privateKey mw"
  shows "middleware L now_ms mw ctx =
           Inr [DmSend (createConversationExpiredError now_ms (ip_tag (pi_payload parsed)))]
       \<and> processMessage L now_ms h text (x_senderInboxId ctx) =
           Inr (\<lparr> jo_result = SendError, jo_conversationId = None,
                   jo_inviteTag = Some (ip_tag (pi_payload parsed)),
                   jo_error = Some (createConversationExpiredError now_ms
                                      (ip_tag (pi_payload parsed))),
                   jo_errorMessage = Some ''Invite expired'' \<rparr>,
                if jr_onJoinError h
                then [createConversationExpiredError now_ms (ip_tag (pi_payload parsed))]
                else [])"
proof -
  have ne: "text \<noteq> []"
    using assms(3,5) verify_empty_signature [of L "[]" "mw_privateKey mw"]
    by (auto simp: parseInviteSlug_empty)
  have m: "middleware L now_ms mw ctx =
           Inr [DmSend (createConversationExpiredError now_ms (ip_tag (pi_payload parsed)))]"
    using assms ne by (simp add: middleware_def handleMessage_def Let_def sendError_def)
  have p: "processMessage L now_ms h text (x_senderInboxId ctx) =
           Inr (\<lparr> jo_result = SendError, jo_conversationId = None,
                   jo_inviteTag = Some (ip_tag (pi_payload parsed)),
                   jo_error = Some (createConversationExpiredError now_ms
                                      (ip_tag (pi_payload parsed))),
                   jo_errorMessage = Some ''Invite expired'' \<rparr>,
                if jr_onJoinError h
                then [createConversationExpiredError now_ms (ip_tag (pi_payload parsed))]
                else [])"
    using assms
    by (simp add: processMessage_def Let_def outcome_def onJoinError_call_def)
  from m p show ?thesis by simp
qed

theorem C4_witness:
  "middleware demo_libs 5000000000 demo_middleware
     \<lparr> x_content = CString demo_slug, x_senderInboxId = ''cd34'' \<rparr>
   = Inr [DmSend \<lparr> e_errorType = ConversationExpired, e_inviteTag = ''tag0123456'',
                   e_timestamp = 5000000000 \<rparr>]"
proof -
  obtain slug si token where r:
    "createInviteSlug demo_libs demo_nonce (demo_options ''conv-1'') = Inr slug"
    "parseInviteSlug demo_libs 5000000000 slug =
       Inr \<lparr> pi_signedInvite = si,
             pi_payload =
               \<lparr> ip_conversationToken = token,
                 ip_creatorInboxId = hex_pairs ''ab12'',
                 ip_tag = ''tag0123456'',
                 ip_name = None,
                 ip_description = None,
                 ip_imageURL = Some ''https://example.com/i.png'',
                 ip_conversationExpiresAtUnix = Some 2000,
                 ip_expiresAtUnix = Some 1000,
                 ip_expiresAfterUse = True \<rparr>,
             pi_creatorInboxId = ''ab12'',
             pi_isExpired = (1000 < (5000000000 :: int) div 1000),
             pi_isConversationExpired = (2000 < (5000000000 :: int) div 1000) \<rparr>"
    "verifyInviteWithPrivateKey demo_libs si demo_key = Inr True"
    by (rule demo_create_parse [of "''conv-1''" 5000000000]) simp_all
  have s: "demo_slug = slug"
    by (simp add: demo_slug_def r(1))
  from C4_both_expired_one_error
    [of "\<lparr> x_content = CString demo_slug, x_senderInboxId = ''cd34'' \<rparr>" demo_slug
        demo_middleware demo_libs 5000000000 _
        "\<lparr> jr_inboxId = ''ab12'', jr_privateKey = demo_key, jr_onJoinRequest = None,
           jr_onJoinError = True, jr_conversationExists = None \<rparr>",
     OF _ _ r(2) [folded s]]
  show ?thesis
    using r(3)
    by (simp add: extractText_def demo_middleware_def demo_agent_def
        createConversationExpiredError_def)
qed

section \<open>C10: display fields that are the empty string\<close>

lemma enc_empty_name: "enc_string_field 4 [] = [0x22, 0]"
  by (simp add: enc_string_field_def enc_bytes_field_def enc_tag_def write_uint32_def
      varint_bytes.simps utf8_encode_def)

lemma decode_fields_empty_name:
  "decode_fields InvitePayload_schema 0 [0x22, 0] [] = Some ([(4, WString [])], [])"
  using decode_fields_string [of InvitePayload_schema 4 "[]" 0 "[]" "[]"]
  by (simp add: enc_empty_name InvitePayload_schema_def decode_fields_done)

text \<open>
  C10. When the wire decoding of an \<open>InvitePayload\<close> leaves the empty string in
  \<open>name\<close>, \<open>description\<close> or \<open>imageURL\<close>, \<open>decodeInvitePayload\<close> returns that field
  as \<open>undefined\<close>; no result of \<open>decodeInvitePayload\<close> has the empty string in one
  of these fields; and an invite minted under the conditions of C1 parses with each
  display field as given, except that a field given as the empty string is absent.
\<close>

theorem C10_empty_display_fields:
  "(\<forall>message rest. decode_fields InvitePayload_schema 0 bs [] = Some (message, rest) \<longrightarrow>
      (\<exists>p. decodeInvitePayload bs = Inr p
         \<and> (field_last 4 message = Some (WString []) \<longrightarrow> ip_name p = None)
         \<and> (field_last 5 message = Some (WString []) \<longrightarrow> ip_description p = None)
         \<and> (field_last 6 message = Some (WString []) \<longrightarrow> ip_imageURL p = None)))
   \<and> (\<forall>p. decodeInvitePayload bs = Inr p \<longrightarrow>
         ip_name p \<noteq> Some [] \<and> ip_description p \<noteq> Some [] \<and> ip_imageURL p \<noteq> Some [])
   \<and> (zlib_ok L \<and> aead_ok L \<and> hkdf_ok L \<and> secp_ok L (o_privateKey opts)
       \<and> length nonce = 12 \<and> even (length (o_creatorInboxId opts))
       \<and> (\<forall>c \<in> set (o_creatorInboxId opts). lower_hex c)
       \<and> options_size opts \<le> 1000000
       \<and> date_ok (o_expiresAt opts) \<and> date_ok (o_conversationExpiresAt opts) \<longrightarrow>
       (\<exists>slug parsed.
          createInviteSlug L nonce opts = Inr slug
          \<and> parseInviteSlug L now_ms slug = Inr parsed
          \<and> ip_name (pi_payload parsed)
              = (if o_name opts = Some [] then None else o_name opts)
          \<and> ip_description (pi_payload parsed)
              = (if o_description opts = Some [] then None else o_description opts)
          \<and> ip_imageURL (pi_payload parsed)
              = (if o_imageURL opts = Some [] then None else o_imageURL opts)))"
proof (intro conjI allI impI)
  fix message rest
  assume "decode_fields InvitePayload_schema 0 bs [] = Some (message, rest)"
  then show "\<exists>p. decodeInvitePayload bs = Inr p
         \<and> (field_last 4 message = Some (WString []) \<longrightarrow> ip_name p = None)
         \<and> (field_last 5 message = Some (WString []) \<longrightarrow> ip_description p = None)
         \<and> (field_last 6 message = Some (WString []) \<longrightarrow> ip_imageURL p = None)"
    by (simp add: decodeInvitePayload_def msg_string_def truthy_string_def)
next
  fix p
  assume p: "decodeInvitePayload bs = Inr p"
  then show "ip_name p \<noteq> Some []" "ip_description p \<noteq> Some []" "ip_imageURL p \<noteq> Some []"
    by (auto simp: decodeInvitePayload_def truthy_string_def split: option.splits if_splits)
next
  assume a: "zlib_ok L \<and> aead_ok L \<and> hkdf_ok L \<and> secp_ok L (o_privateKey opts)
       \<and> length nonce = 12 \<and> even (length (o_creatorInboxId opts))
       \<and> (\<forall>c \<in> set (o_creatorInboxId opts). lower_hex c)
       \<and> options_size opts \<le> 1000000
       \<and> date_ok (o_expiresAt opts) \<and> date_ok (o_conversationExpiresAt opts)"
  obtain slug si token where r:
    "createInviteSlug L nonce opts = Inr slug"
    "parseInviteSlug L now_ms slug =
       Inr \<lparr> pi_signedInvite = si,
             pi_payload =
               \<lparr> ip_conversationToken = token,
                 ip_creatorInboxId = hex_pairs (o_creatorInboxId opts),
                 ip_tag = o_inviteTag opts,
                 ip_name = read_back_string (o_name opts),
                 ip_description = read_back_string (o_description opts),
                 ip_imageURL = read_back_string (o_imageURL opts),
                 ip_conversationExpiresAtUnix = expiry_seconds (o_conversationExpiresAt opts),
                 ip_expiresAtUnix = expiry_seconds (o_expiresAt opts),
                 ip_expiresAfterUse = (o_expiresAfterUse opts = Some True) \<rparr>,
             pi_creatorInboxId = o_creatorInboxId opts,
             pi_isExpired =
               (case expiry_seconds (o_expiresAt opts) of
                  None \<Rightarrow> False | Some t \<Rightarrow> t < now_ms div 1000),
             pi_isConversationExpired =
               (case expiry_seconds (o_conversationExpiresAt opts) of
                  None \<Rightarrow> False | Some t \<Rightarrow> t < now_ms div 1000) \<rparr>"
    using create_parse [of L opts nonce now_ms] a by metis
  show "\<exists>slug parsed.
          createInviteSlug L nonce opts = Inr slug
          \<and> parseInviteSlug L now_ms slug = Inr parsed
          \<and> ip_name (pi_payload parsed)
              = (if o_name opts = Some [] then None else o_name opts)
          \<and> ip_description (pi_payload parsed)
              = (if o_description opts = Some [] then None else o_description opts)
          \<and> ip_imageURL (pi_payload parsed)
              = (if o_imageURL opts = Some [] then None else o_imageURL opts)"
    by (intro exI conjI, rule r(1), rule r(2)) (simp_all add: read_back_string_eq)
qed

theorem C10_witness:
  "(\<exists>p. decodeInvitePayload [0x22, 0] = Inr p \<and> ip_name p = None)
   \<and> (\<exists>slug parsed.
         createInviteSlug demo_libs demo_nonce (demo_options ''conv-1'') = Inr slug
         \<and> parseInviteSlug demo_libs 0 slug = Inr parsed
         \<and> ip_name (pi_payload parsed) = None
         \<and> ip_description (pi_payload parsed) = None
         \<and> ip_imageURL (pi_payload parsed) = Some ''https://example.com/i.png'')"
proof -
  have k: "secp_ok demo_libs (o_privateKey (demo_options ''conv-1''))"
    by (rule demo_secp_ok) (simp_all add: demo_options_def demo_key_def)
  have n: "length demo_nonce = 12" by (simp add: demo_nonce_def)
  have i: "even (length (o_creatorInboxId (demo_options ''conv-1'')))"
    "\<forall>x \<in> set (o_creatorInboxId (demo_options ''conv-1'')). lower_hex x"
    by (simp_all add: demo_options_def lower_hex_def)
  have s: "options_size (demo_options ''conv-1'') \<le> 1000000"
    by (simp add: options_size_def opt_length_def demo_options_def)
  have d: "date_ok (o_expiresAt (demo_options ''conv-1''))"
    "date_ok (o_conversationExpiresAt (demo_options ''conv-1''))"
    by (simp_all add: date_ok_def demo_options_def)
  note t = C10_empty_display_fields
    [of "[0x22, 0]" demo_libs "demo_options ''conv-1''" demo_nonce 0]
  have a: "\<exists>p. decodeInvitePayload [0x22, 0] = Inr p \<and> ip_name p = None"
    using t decode_fields_empty_name by (auto simp: field_last_def)
  have b: "\<exists>slug parsed.
         createInviteSlug demo_libs demo_nonce (demo_options ''conv-1'') = Inr slug
         \<and> parseInviteSlug demo_libs 0 slug = Inr parsed
         \<and> ip_name (pi_payload parsed) = None
         \<and> ip_description (pi_payload parsed) = None
         \<and> ip_imageURL (pi_payload parsed) = Some ''https://example.com/i.png''"
    using t demo_zlib_ok demo_aead_ok demo_hkdf_ok k n i s d
    by (simp add: demo_options_def)
  from a b show ?thesis by simp
qed

section \<open>C5: decoding the metadata that was encoded\<close>

text \<open>
  A metadata value with one profile, whose name is the argument.
\<close>

definition demo_metadata :: "string option \<Rightarrow> ConversationCustomMetadata" where
  "demo_metadata name =
     \<lparr> cm_tag = ''tag0123456'',
       cm_profiles =
         [\<lparr> cp_inboxId = [0xAB, 0x12], cp_name = name,
            cp_image = Some ''https://example.com/a.png'' \<rparr>],
       cm_expiresAtUnix = Some 1700000000,
       cm_imageEncryptionKey = Some [1, 2, 3] \<rparr>"

lemma demo_metadata_small:
  assumes "opt_length name \<le> 100"
  shows "length (encodeConversationMetadata (demo_metadata name)) \<le> MAX_DECOMPRESSED_SIZE"
  using length_encodeConversationMetadata [of "demo_metadata name"] assms
  by (simp add: demo_metadata_def profile_size_def opt_length_def MAX_DECOMPRESSED_SIZE_def)

lemma read_back_demo_metadata:
  "read_back_metadata (demo_metadata name)
   = demo_metadata (Some (case name of None \<Rightarrow> [] | Some s \<Rightarrow> s))"
proof -
  have "wrap64 1700000000 = 1700000000" by (rule wrap64_id) simp_all
  then show ?thesis
    by (simp add: read_back_metadata_def read_back_profile_def demo_metadata_def
        truthy_bigint_def)
qed

text \<open>
  C5, as stated, fails for a profile without a name: the name is not written, and the
  decoder returns the empty string that protobufjs has for a string that is not on
  the wire (the tests of \<open>setConversationProfile\<close> say so). The result differs from
  the metadata that was encoded.
\<close>

theorem C5_counterexample:
  "decodeMetadata demo_libs (encodeMetadata demo_libs (demo_metadata None))
   = Inr (demo_metadata (Some []))
   \<and> demo_metadata (Some []) \<noteq> demo_metadata None"
proof -
  have "decodeMetadata demo_libs (encodeMetadata demo_libs (demo_metadata None))
        = Inr (read_back_metadata (demo_metadata None))"
    by (rule decodeMetadata_encodeMetadata [OF demo_zlib_ok demo_metadata_small])
       (simp add: opt_length_def)
  then show ?thesis
    by (simp add: read_back_demo_metadata) (simp add: demo_metadata_def)
qed

text \<open>
  C5, amended. Let inflating invert deflating and the encoded metadata have at most
  1 MiB. Then \<open>decodeMetadata (encodeMetadata m)\<close> returns a value with the tag of
  \<open>m\<close> and with the profiles of \<open>m\<close> in their order, each with its inbox id and with
  its name and image, the empty string standing for one that is not set; an expiry
  that is set, not 0 and a 64-bit integer is returned as it is, and so is an image
  encryption key that is set. When every name and image, such an expiry and the key
  are set, the value returned is \<open>m\<close>. \<open>getInviteTag (encodeMetadata m)\<close> returns
  the tag of \<open>m\<close>.
\<close>

theorem C5_metadata_round_trip:
  assumes "zlib_ok L" "length (encodeConversationMetadata m) \<le> 1048576"
  shows "\<exists>d. decodeMetadata L (encodeMetadata L m) = Inr d
     \<and> cm_tag d = cm_tag m
     \<and> map cp_inboxId (cm_profiles d) = map cp_inboxId (cm_profiles m)
     \<and> map cp_name (cm_profiles d)
         = map (\<lambda>p. Some (case cp_name p of None \<Rightarrow> [] | Some s \<Rightarrow> s)) (cm_profiles m)
     \<and> map cp_image (cm_profiles d)
         = map (\<lambda>p. Some (case cp_image p of None \<Rightarrow> [] | Some s \<Rightarrow> s)) (cm_profiles m)
     \<and> (\<forall>v. cm_expiresAtUnix m = Some v \<and> v \<noteq> 0 \<and> - (2 ^ 63) \<le> v \<and> v < 2 ^ 63
            \<longrightarrow> cm_expiresAtUnix d = Some v)
     \<and> (\<forall>k. cm_imageEncryptionKey m = Some k \<longrightarrow> cm_imageEncryptionKey d = Some k)
     \<and> ((\<forall>p \<in> set (cm_profiles m). cp_name p \<noteq> None \<and> cp_image p \<noteq> None)
          \<and> (\<exists>v. cm_expiresAtUnix m = Some v \<and> v \<noteq> 0 \<and> - (2 ^ 63) \<le> v \<and> v < 2 ^ 63)
          \<and> cm_imageEncryptionKey m \<noteq> None
          \<longrightarrow> d = m)
     \<and> getInviteTag L (encodeMetadata L m) = Inr (cm_tag m)"
proof -
  have s: "length (encodeConversationMetadata m) \<le> MAX_DECOMPRESSED_SIZE"
    using assms(2) by (simp add: MAX_DECOMPRESSED_SIZE_def)
  note d = decodeMetadata_encodeMetadata [OF assms(1) s]
  have e: "cm_expiresAtUnix (read_back_metadata m) = Some v"
    if "cm_expiresAtUnix m = Some v \<and> v \<noteq> 0 \<and> - (2 ^ 63) \<le> v \<and> v < 2 ^ 63" for v
    using that wrap64_id [of v] by (simp add: read_back_metadata_def truthy_bigint_def)
  have k: "cm_imageEncryptionKey (read_back_metadata m) = Some k"
    if "cm_imageEncryptionKey m = Some k" for k
    using that by (simp add: read_back_metadata_def)
  have p: "map read_back_profile ps = ps"
    if "\<forall>p \<in> set ps. cp_name p \<noteq> None \<and> cp_image p \<noteq> None" for ps
    using that by (induction ps) (auto simp: read_back_profile_def)
  have f: "read_back_metadata m = m"
    if "(\<forall>p \<in> set (cm_profiles m). cp_name p \<noteq> None \<and> cp_image p \<noteq> None)
          \<and> (\<exists>v. cm_expiresAtUnix m = Some v \<and> v \<noteq> 0 \<and> - (2 ^ 63) \<le> v \<and> v < 2 ^ 63)
          \<and> cm_imageEncryptionKey m \<noteq> None"
  proof -
    from that obtain v where v: "cm_expiresAtUnix m = Some v \<and> v \<noteq> 0 \<and> - (2 ^ 63) \<le> v \<and> v < 2 ^ 63"
      by blast
    from that obtain key where key: "cm_imageEncryptionKey m = Some key" by auto
    have "read_back_metadata m =
          \<lparr> cm_tag = cm_tag m, cm_profiles = cm_profiles m,
            cm_expiresAtUnix = cm_expiresAtUnix m,
            cm_imageEncryptionKey = cm_imageEncryptionKey m \<rparr>"
      using e [OF v] k [OF key] p that v key
      by (simp add: read_back_metadata_def)
    then show ?thesis by simp
  qed
  show ?thesis
  proof (intro exI conjI allI impI)
    show "decodeMetadata L (encodeMetadata L m) = Inr (read_back_metadata m)" by (rule d)
    show "getInviteTag L (encodeMetadata L m) = Inr (cm_tag m)"
      by (simp add: getInviteTag_def d read_back_metadata_def)
  qed (simp_all add: e k f, simp_all add: read_back_metadata_def read_back_profile_def comp_def)
qed

theorem C5_witness:
  "decodeMetadata demo_libs (encodeMetadata demo_libs (demo_metadata (Some ''Bot'')))
   = Inr (demo_metadata (Some ''Bot''))
   \<and> getInviteTag demo_libs (encodeMetadata demo_libs (demo_metadata (Some ''Bot'')))
       = Inr ''tag0123456''"
proof -
  have s: "length (encodeConversationMetadata (demo_metadata (Some ''Bot''))) \<le> 1048576"
    using demo_metadata_small [of "Some ''Bot''"]
    by (simp add: opt_length_def MAX_DECOMPRESSED_SIZE_def)
  from C5_metadata_round_trip [OF demo_zlib_ok s]
  show ?thesis
    by (auto simp: demo_metadata_def)
qed

end
